theory Spec2Isabelle
  imports Main "HOL-Library.Sublist"
begin

section \<open>Go values used by the MariaDB storage backend\<close>

subsection \<open>Errors\<close>

text \<open>
  A Go \<^verbatim>\<open>error\<close> is modelled by the shapes the package builds or inspects: the two
  sentinels of package \<^verbatim>\<open>context\<close>, a plain message (\<^verbatim>\<open>errors.New\<close>, driver and
  network errors), an error made by \<^verbatim>\<open>fmt.Errorf\<close> with one \<^verbatim>\<open>%w\<close> verb (its complete
  message and the error it wraps) and the result of \<^verbatim>\<open>errors.Join\<close>. The nil error is
  \<open>None\<close> of \<open>go_error option\<close>.
\<close>

datatype go_error =
    Canceled
  | DeadlineExceeded
  | ErrorString string
  | Wrapped string go_error
  | Joined "go_error list"

text \<open>\<^verbatim>\<open>strings.Join(msgs, "\n")\<close>, as used by the message of a joined error.\<close>

fun join_lines :: "string list \<Rightarrow> string" where
  "join_lines [] = []"
| "join_lines [m] = m"
| "join_lines (m # ms) = m @ [CHR 0x0A] @ join_lines ms"

fun Error :: "go_error \<Rightarrow> string" where
  "Error Canceled = ''context canceled''"
| "Error DeadlineExceeded = ''context deadline exceeded''"
| "Error (ErrorString m) = m"
| "Error (Wrapped m e) = m"
| "Error (Joined es) = join_lines (map Error es)"

text \<open>
  \<^verbatim>\<open>fmt.Errorf(pre + "%w" + post, err)\<close>: the message is the format with the wrapped
  error's message in the place of the verb.
\<close>

definition Errorf_w :: "string \<Rightarrow> go_error \<Rightarrow> string \<Rightarrow> go_error" where
  "Errorf_w pre err post = Wrapped (pre @ Error err @ post) err"

text \<open>
  \<^verbatim>\<open>errors.Is(err, target)\<close> walks the chain of wrapped errors, and every branch of a
  joined error. The package only calls it with the sentinel \<^verbatim>\<open>context.Canceled\<close> as
  target, where Go's comparison by identity is the equality of the model.
\<close>

fun errors_Is :: "go_error \<Rightarrow> go_error \<Rightarrow> bool" where
  "errors_Is (Wrapped m e) target = (Wrapped m e = target \<or> errors_Is e target)"
| "errors_Is (Joined es) target = (Joined es = target \<or> list_ex (\<lambda>e. errors_Is e target) es)"
| "errors_Is e target = (e = target)"

text \<open>
  \<^verbatim>\<open>errors.Join(nil, cerr)\<close> with a non-nil \<^verbatim>\<open>cerr\<close>, the only call of the package:
  nil arguments are dropped and the rest is wrapped in one joined error.
\<close>

definition errors_Join :: "go_error option \<Rightarrow> go_error option \<Rightarrow> go_error option" where
  "errors_Join a b =
     (case List.map_filter id [a, b] of [] \<Rightarrow> None | es \<Rightarrow> Some (Joined es))"

subsection \<open>Strings\<close>

text \<open>
  A Go string is a sequence of bytes, here a \<open>string\<close>; a rune is a code point, a natural
  number. \<open>isASCII\<close> says that every byte is below \<^verbatim>\<open>utf8.RuneSelf\<close>.
\<close>

definition isASCII :: "string \<Rightarrow> bool" where
  "isASCII s = list_all (\<lambda>c. of_char c < (0x80 :: nat)) s"

text \<open>The byte-wise lowering of the ASCII path of \<^verbatim>\<open>strings.ToLower\<close>: \<^verbatim>\<open>c += 'a' - 'A'\<close>.\<close>

definition lower_byte :: "char \<Rightarrow> char" where
  "lower_byte c =
     (if (0x41 :: nat) \<le> of_char c \<and> of_char c \<le> (0x5A :: nat)
      then char_of (of_char c + (0x20 :: nat)) else c)"

text \<open>
  \<^verbatim>\<open>utf8.DecodeRuneInString\<close>: the first rune of a string and its width in bytes. A byte
  that does not start a well-formed encoding (a stray continuation byte, an overlong or
  truncated form, a surrogate, a value above U+10FFFF) is the rune \<^verbatim>\<open>RuneError\<close> of width
  1. The second byte of an encoding is checked against the range that its first byte
  accepts, the others against \<^verbatim>\<open>0x80\<close> to \<^verbatim>\<open>0xBF\<close>; the masks \<^verbatim>\<open>0x1F\<close>, \<^verbatim>\<open>0x0F\<close>,
  \<^verbatim>\<open>0x07\<close> and \<^verbatim>\<open>0x3F\<close> are remainders, the shifts are products.
\<close>

definition RuneError :: nat where
  "RuneError = 0xFFFD"

fun DecodeRune :: "string \<Rightarrow> nat \<times> nat" where
  "DecodeRune [] = (RuneError, 0)"
| "DecodeRune (c0 # rest) =
     (let s0 = (of_char c0 :: nat) in
      if s0 < 0x80 then (s0, 1)
      else if s0 < 0xC2 \<or> 0xF4 < s0 then (RuneError, 1)
      else
        (let sz = (if s0 < 0xE0 then 2 else if s0 < 0xF0 then 3 else (4 :: nat));
             lo = (if s0 = 0xE0 then 0xA0 else if s0 = 0xF0 then 0x90 else (0x80 :: nat));
             hi = (if s0 = 0xED then 0x9F else if s0 = 0xF4 then 0x8F else (0xBF :: nat))
         in
         if length (c0 # rest) < sz then (RuneError, 1)
         else
           (let s1 = (of_char (rest ! 0) :: nat) in
            if s1 < lo \<or> hi < s1 then (RuneError, 1)
            else if sz \<le> 2 then ((s0 mod 0x20) * 0x40 + s1 mod 0x40, 2)
            else
              (let s2 = (of_char (rest ! 1) :: nat) in
               if s2 < 0x80 \<or> 0xBF < s2 then (RuneError, 1)
               else if sz \<le> 3 then
                 ((s0 mod 0x10) * 0x1000 + (s1 mod 0x40) * 0x40 + s2 mod 0x40, 3)
               else
                 (let s3 = (of_char (rest ! 2) :: nat) in
                  if s3 < 0x80 \<or> 0xBF < s3 then (RuneError, 1)
                  else
                    ((s0 mod 0x08) * 0x40000 + (s1 mod 0x40) * 0x1000 + (s2 mod 0x40) * 0x40 +
                     s3 mod 0x40, 4))))))"

text \<open>The runes of a string, as a \<^verbatim>\<open>range\<close> loop over it yields them.\<close>

lemma DecodeRune_width: "s \<noteq> [] \<Longrightarrow> 0 < snd (DecodeRune s)"
  by (cases s) (simp_all add: Let_def)

function decode_runes :: "string \<Rightarrow> nat list" where
  "decode_runes s =
     (if s = [] then []
      else fst (DecodeRune s) # decode_runes (drop (snd (DecodeRune s)) s))"
  by pat_completeness auto
termination
proof (relation "measure length")
  show "wf (measure length)" by simp
next
  fix s :: string
  assume "s \<noteq> []"
  with DecodeRune_width [of s] show "(drop (snd (DecodeRune s)) s, s) \<in> measure length"
    by simp
qed

declare decode_runes.simps [simp del]
declare DecodeRune.simps(2) [simp del]

text \<open>
  \<^verbatim>\<open>utf8.AppendRune\<close>: the encoding of a rune; a surrogate and a value above U+10FFFF are
  written as \<^verbatim>\<open>RuneError\<close>.
\<close>

definition EncodeRune :: "nat \<Rightarrow> string" where
  "EncodeRune r =
     (if r < 0x80 then [char_of r]
      else if r < 0x800 then [char_of (0xC0 + r div 0x40), char_of (0x80 + r mod 0x40)]
      else if 0x10FFFF < r \<or> (0xD800 \<le> r \<and> r \<le> 0xDFFF) then [CHR 0xEF, CHR 0xBF, CHR 0xBD]
      else if r < 0x10000 then
        [char_of (0xE0 + r div 0x1000), char_of (0x80 + (r div 0x40) mod 0x40),
         char_of (0x80 + r mod 0x40)]
      else
        [char_of (0xF0 + r div 0x40000), char_of (0x80 + (r div 0x1000) mod 0x40),
         char_of (0x80 + (r div 0x40) mod 0x40), char_of (0x80 + r mod 0x40)])"

text \<open>
  The encodings do not overlap with ASCII: a function into strings is \<open>atomic\<close> when each
  of its values is one ASCII byte or a non-empty block of bytes above ASCII, as the
  encoding of a rune is.
\<close>

definition atomic :: "('a \<Rightarrow> string) \<Rightarrow> bool" where
  "atomic g \<longleftrightarrow>
     (\<forall>r. (\<exists>x. g r = [x] \<and> of_char x < (0x80 :: nat)) \<or>
          (g r \<noteq> [] \<and> (\<forall>c \<in> set (g r). (0x80 :: nat) \<le> of_char c)))"

text \<open>
  \<^verbatim>\<open>unicode.ToLower\<close> lowers an ASCII rune by itself and looks any other rune up in the
  case tables of package \<^verbatim>\<open>unicode\<close>. Those tables belong to the standard library and
  change with its Unicode version: the lookup is the parameter \<open>table\<close>.
\<close>

definition unicode_ToLower :: "(nat \<Rightarrow> nat) \<Rightarrow> nat \<Rightarrow> nat" where
  "unicode_ToLower table r =
     (if r \<le> 0x7F then (if 0x41 \<le> r \<and> r \<le> 0x5A then r + 0x20 else r)
      else table r)"

text \<open>
  \<^verbatim>\<open>strings.Map(mapping, s)\<close> for a mapping that returns no negative rune: every rune of
  \<open>s\<close> is replaced by the encoding of its image. (The function copies the string as it
  is up to the first rune that changes or is ill-formed; the result is the same.)
\<close>

definition strings_Map :: "(nat \<Rightarrow> nat) \<Rightarrow> string \<Rightarrow> string" where
  "strings_Map mapping s = concat (map (\<lambda>c. EncodeRune (mapping c)) (decode_runes s))"

text \<open>\<^verbatim>\<open>strings.ToLower\<close>: the ASCII path for a string of ASCII bytes, \<^verbatim>\<open>Map\<close> otherwise.\<close>

definition ToLower :: "(nat \<Rightarrow> nat) \<Rightarrow> string \<Rightarrow> string" where
  "ToLower table s =
     (if isASCII s then map lower_byte s else strings_Map (unicode_ToLower table) s)"

text \<open>\<^verbatim>\<open>strings.Contains(s, substr)\<close>: \<open>substr\<close> occurs in \<open>s\<close> as a contiguous block.\<close>

definition Contains :: "string \<Rightarrow> string \<Rightarrow> bool" where
  "Contains s substr = sublist substr s"

section \<open>Classification of errors\<close>

definition isRetryableError :: "(nat \<Rightarrow> nat) \<Rightarrow> go_error option \<Rightarrow> bool" where
  "isRetryableError table err =
     (case err of
        None \<Rightarrow> False
      | Some e \<Rightarrow>
          (let errStr = ToLower table (Error e) in
           if Contains errStr ''driver: bad connection'' then True
           else if Contains errStr ''invalid connection'' then True
           else if Contains errStr ''broken pipe'' then True
           else if Contains errStr ''connection reset'' then True
           else False))"

text \<open>
  The specification's reading of the rule: a message contains a phrase, compared without
  regard to case, when some block of consecutive runes of the message and the runes of
  the phrase are the same once every rune is lowered.
\<close>

definition contains_ci :: "(nat \<Rightarrow> nat) \<Rightarrow> string \<Rightarrow> string \<Rightarrow> bool" where
  "contains_ci table msg phrase =
     (\<exists>before block after.
        decode_runes msg = before @ block @ after \<and>
        map (unicode_ToLower table) block = map (unicode_ToLower table) (decode_runes phrase))"

section \<open>Retrying an operation\<close>

text \<open>
  Time is a number of nanoseconds. A context is done from the instant \<open>done_at\<close> on, if
  there is one, and \<^verbatim>\<open>ctx.Err()\<close> is \<open>ctx_error\<close> from then on and nil before.
\<close>

record go_context =
  done_at :: "nat option"
  ctx_error :: go_error

definition ctx_Err :: "go_context \<Rightarrow> nat \<Rightarrow> go_error option" where
  "ctx_Err ctx now =
     (case done_at ctx of
        None \<Rightarrow> None
      | Some d \<Rightarrow> if d \<le> now then Some (ctx_error ctx) else None)"

definition serverRetryMaxElapsed :: nat where
  "serverRetryMaxElapsed = 30 * 1000000000"

text \<open>
  One invocation of the operation, as the world decides it: the error it returns, the
  time it takes, and the randomised interval that the exponential policy of
  \<^verbatim>\<open>newServerRetryBackoff\<close> draws after it.
\<close>

record attempt =
  op_error :: "go_error option"
  op_time :: nat
  interval :: nat

text \<open>
  What the function literal of \<^verbatim>\<open>withRetry\<close> hands to the retry loop: nil, the error
  itself, or the error marked by \<^verbatim>\<open>backoff.Permanent\<close>.
\<close>

datatype attempt_result = Succeeded | Retryable go_error | Permanent go_error

definition retry_operation :: "(nat \<Rightarrow> nat) \<Rightarrow> go_error option \<Rightarrow> attempt_result" where
  "retry_operation table err =
     (if err \<noteq> None \<and> isRetryableError table err then Retryable (the err)
      else if err \<noteq> None then Permanent (the err)
      else Succeeded)"

record retry_outcome =
  returned :: "go_error option"
  calls :: nat
  last_call :: nat

text \<open>
  The loop of \<^verbatim>\<open>backoff.Retry\<close> with the policy \<^verbatim>\<open>backoff.WithContext(bo, ctx)\<close>, \<open>start\<close>
  being the instant of the policy's reset. The loop and the policy belong to the library
  \<^verbatim>\<open>cenkalti/backoff\<close>, not to the package: they are written down here as the current
  version 4 of the library behaves. The operation runs; nil and a permanent error end the loop. Otherwise the
  policy is asked for the next interval: it stops when the context is done and when the
  time elapsed since the reset plus the interval exceeds \<^verbatim>\<open>MaxElapsedTime\<close>; on a stop
  the loop returns the context's error if there is one, else the operation's. Then the
  loop waits for the interval, or returns the context's error when the context is done
  first. The list holds the invocations that the world has in store; \<open>None\<close> says that
  the loop asks for more of them than the list holds.
\<close>

fun backoff_Retry :: "(nat \<Rightarrow> nat) \<Rightarrow> go_context \<Rightarrow> nat \<Rightarrow> nat \<Rightarrow> attempt list \<Rightarrow> retry_outcome option" where
  "backoff_Retry table ctx start now [] = None"
| "backoff_Retry table ctx start now (a # rest) =
     (let finished = now + op_time a in
      case retry_operation table (op_error a) of
        Succeeded \<Rightarrow> Some \<lparr>returned = None, calls = 1, last_call = now\<rparr>
      | Permanent err \<Rightarrow> Some \<lparr>returned = Some err, calls = 1, last_call = now\<rparr>
      | Retryable err \<Rightarrow>
          if ctx_Err ctx finished \<noteq> None then
            Some \<lparr>returned = ctx_Err ctx finished, calls = 1, last_call = now\<rparr>
          else if (finished - start) + interval a > serverRetryMaxElapsed then
            Some \<lparr>returned = Some err, calls = 1, last_call = now\<rparr>
          else if ctx_Err ctx (finished + interval a) \<noteq> None then
            Some \<lparr>returned = ctx_Err ctx (finished + interval a), calls = 1, last_call = now\<rparr>
          else
            map_option (\<lambda>r. r\<lparr>calls := calls r + 1\<rparr>)
              (backoff_Retry table ctx start (finished + interval a) rest))"

definition withRetry :: "(nat \<Rightarrow> nat) \<Rightarrow> go_context \<Rightarrow> nat \<Rightarrow> attempt list \<Rightarrow> retry_outcome option" where
  "withRetry table ctx now attempts = backoff_Retry table ctx now now attempts"

section \<open>The statement splitter\<close>

subsection \<open>Trimming white space\<close>

text \<open>
  \<^verbatim>\<open>strings.TrimSpace\<close> removes the white space runes at both ends of a string, as
  \<^verbatim>\<open>unicode.IsSpace\<close> defines them. \<open>space_runes\<close> lists their UTF-8 encodings: the six
  ASCII ones, U+0085, U+00A0, U+1680, U+2000 to U+200A, U+2028, U+2029, U+202F, U+205F
  and U+3000. A rune is decoded at the front (or at the back) of the string exactly when
  its encoding is a prefix (or a suffix) of the bytes.
\<close>

definition space_runes :: "string list" where
  "space_runes =
     [[CHR 0x09], [CHR 0x0A], [CHR 0x0B], [CHR 0x0C], [CHR 0x0D], [CHR 0x20],
      [CHR 0xC2, CHR 0x85], [CHR 0xC2, CHR 0xA0],
      [CHR 0xE1, CHR 0x9A, CHR 0x80],
      [CHR 0xE2, CHR 0x80, CHR 0x80], [CHR 0xE2, CHR 0x80, CHR 0x81],
      [CHR 0xE2, CHR 0x80, CHR 0x82], [CHR 0xE2, CHR 0x80, CHR 0x83],
      [CHR 0xE2, CHR 0x80, CHR 0x84], [CHR 0xE2, CHR 0x80, CHR 0x85],
      [CHR 0xE2, CHR 0x80, CHR 0x86], [CHR 0xE2, CHR 0x80, CHR 0x87],
      [CHR 0xE2, CHR 0x80, CHR 0x88], [CHR 0xE2, CHR 0x80, CHR 0x89],
      [CHR 0xE2, CHR 0x80, CHR 0x8A],
      [CHR 0xE2, CHR 0x80, CHR 0xA8], [CHR 0xE2, CHR 0x80, CHR 0xA9],
      [CHR 0xE2, CHR 0x80, CHR 0xAF], [CHR 0xE2, CHR 0x81, CHR 0x9F],
      [CHR 0xE3, CHR 0x80, CHR 0x80]]"

text \<open>Drop runes of the list from the front of the string for as long as one is there.\<close>

function trim_front :: "string list \<Rightarrow> string \<Rightarrow> string" where
  "trim_front runes s =
     (case find (\<lambda>r. r \<noteq> [] \<and> prefix r s) runes of
        None \<Rightarrow> s
      | Some r \<Rightarrow> trim_front runes (drop (length r) s))"
  by pat_completeness auto
termination
  by (relation "measure (\<lambda>(runes, s). length s)") (auto simp: find_Some_iff prefix_def)

declare trim_front.simps [simp del]

definition TrimLeft :: "string \<Rightarrow> string" where
  "TrimLeft s = trim_front space_runes s"

definition TrimRight :: "string \<Rightarrow> string" where
  "TrimRight s = rev (trim_front (map rev space_runes) (rev s))"

definition TrimSpace :: "string \<Rightarrow> string" where
  "TrimSpace s = TrimRight (TrimLeft s)"

subsection \<open>\<^verbatim>\<open>splitStatements\<close>\<close>

text \<open>The three quote characters: single quote, double quote and backtick.\<close>

definition is_quote :: "char \<Rightarrow> bool" where
  "is_quote c = (c = CHR 0x27 \<or> c = CHR 0x22 \<or> c = CHR 0x60)"

text \<open>
  The loop of \<^verbatim>\<open>splitStatements\<close>, with the loop index \<open>i\<close> and the four variables of
  the function as arguments; it returns \<^verbatim>\<open>statements\<close> and the contents of the builder
  \<^verbatim>\<open>current\<close> at the end of the script. \<open>CHR 0x5C\<close> is the backslash and \<open>CHR 0x3B\<close> the
  semicolon.
\<close>

function splitLoop ::
  "string \<Rightarrow> nat \<Rightarrow> string list \<Rightarrow> string \<Rightarrow> bool \<Rightarrow> char \<Rightarrow> string list \<times> string" where
  "splitLoop script i statements current inString stringChar =
     (if i < length script then
        (let c = script ! i in
         if inString then
           splitLoop script (i + 1) statements (current @ [c])
             (\<not> (c = stringChar \<and> (i = 0 \<or> script ! (i - 1) \<noteq> CHR 0x5C))) stringChar
         else if c = CHR 0x27 \<or> c = CHR 0x22 \<or> c = CHR 0x60 then
           splitLoop script (i + 1) statements (current @ [c]) True c
         else if c = CHR 0x3B then
           (let stmt = TrimSpace current in
            splitLoop script (i + 1)
              (if stmt \<noteq> [] then statements @ [stmt] else statements) [] False stringChar)
         else splitLoop script (i + 1) statements (current @ [c]) False stringChar)
      else (statements, current))"
  by pat_completeness auto
termination
  by (relation "measure (\<lambda>(script, i, _). length script - i)") auto

declare splitLoop.simps [simp del]

definition splitStatements :: "string \<Rightarrow> string list" where
  "splitStatements script =
     (case splitLoop script 0 [] [] False (CHR 0x00) of
        (statements, current) \<Rightarrow>
          (let stmt = TrimSpace current in
           if stmt \<noteq> [] then statements @ [stmt] else statements))"


text \<open>
  The same loop by recursion on the rest of the script, with the previous byte as an
  argument; it serves the proofs. \<open>emit\<close> is the step that closes a statement.
\<close>

definition emit :: "string list \<Rightarrow> string \<Rightarrow> string list" where
  "emit statements current =
     (let stmt = TrimSpace current in if stmt \<noteq> [] then statements @ [stmt] else statements)"

fun scan ::
  "char option \<Rightarrow> string \<Rightarrow> string list \<Rightarrow> string \<Rightarrow> bool \<Rightarrow> char \<Rightarrow> string list \<times> string" where
  "scan prev [] sts cur inS q = (sts, cur)"
| "scan prev (c # cs) sts cur inS q =
     (if inS then scan (Some c) cs sts (cur @ [c]) (\<not> (c = q \<and> prev \<noteq> Some (CHR 0x5C))) q
      else if is_quote c then scan (Some c) cs sts (cur @ [c]) True c
      else if c = CHR 0x3B then scan (Some c) cs (emit sts cur) [] False q
      else scan (Some c) cs sts (cur @ [c]) False q)"


subsection \<open>The vocabulary of the specification\<close>

text \<open>A string has leading (trailing) white space when it starts (ends) with a white space rune.\<close>

definition has_space_prefix :: "string \<Rightarrow> bool" where
  "has_space_prefix s = list_ex (\<lambda>r. prefix r s) space_runes"

definition has_space_suffix :: "string \<Rightarrow> bool" where
  "has_space_suffix s = list_ex (\<lambda>r. suffix r s) space_runes"

text \<open>
  A quoted literal: a quote character, a body and the same quote character, where every
  occurrence of that quote in the body comes immediately after a backslash (it is escaped)
  and the closing quote does not.
\<close>

definition literal :: "string \<Rightarrow> bool" where
  "literal l \<longleftrightarrow>
     (\<exists>q body. is_quote q \<and> l = q # body @ [q] \<and>
        (\<forall>(p, c) \<in> set (zip (q # body) body). c = q \<longrightarrow> p = CHR 0x5C) \<and>
        last (q # body) \<noteq> CHR 0x5C)"

text \<open>
  A text in which every quote character belongs to a complete literal is a sequence of
  literals and of bytes that are not quotes; \<open>P\<close> restricts the latter. At the end of
  such a text the scanner is outside any literal. In a \<open>fragment\<close> no semicolon lies
  outside a literal.
\<close>

inductive chunks :: "(char \<Rightarrow> bool) \<Rightarrow> string \<Rightarrow> bool" for P where
  chunks_Nil: "chunks P []"
| chunks_char: "P c \<Longrightarrow> \<not> is_quote c \<Longrightarrow> chunks P s \<Longrightarrow> chunks P (c # s)"
| chunks_literal: "literal l \<Longrightarrow> chunks P s \<Longrightarrow> chunks P (l @ s)"

abbreviation outside :: "string \<Rightarrow> bool" where
  "outside s \<equiv> chunks (\<lambda>c. True) s"

abbreviation fragment :: "string \<Rightarrow> bool" where
  "fragment s \<equiv> chunks (\<lambda>c. c \<noteq> CHR 0x3B) s"

text \<open>
  An unterminated literal: a quote character and a body in which every occurrence of
  that quote comes immediately after a backslash, so that nothing closes it.
\<close>

definition open_literal :: "string \<Rightarrow> bool" where
  "open_literal u \<longleftrightarrow>
     (\<exists>q body. is_quote q \<and> u = q # body \<and>
        (\<forall>(p, c) \<in> set (zip (q # body) body). c = q \<longrightarrow> p = CHR 0x5C))"

text \<open>A trimmed, non-empty statement.\<close>

definition trimmed :: "string \<Rightarrow> bool" where
  "trimmed s \<longleftrightarrow> s \<noteq> [] \<and> \<not> has_space_prefix s \<and> \<not> has_space_suffix s"

section \<open>The store and its life cycle\<close>

text \<open>
  The pool \<^verbatim>\<open>*sql.DB\<close> of package \<^verbatim>\<open>database/sql\<close> is opaque to the store. The model keeps
  of a pool what the store's methods observe: the data source name it was opened with,
  the error its \<^verbatim>\<open>Close\<close> returns and the outcome of \<^verbatim>\<open>Conn\<close> (a connection, numbered,
  or an error).
\<close>

record sql_DB =
  dsn :: string
  close_result :: "go_error option"
  conn_result :: "go_error + nat"

definition sql_Close :: "sql_DB \<Rightarrow> go_error option" where
  "sql_Close d = close_result d"

definition sql_Conn :: "sql_DB \<Rightarrow> go_error + nat" where
  "sql_Conn d = conn_result d"

text \<open>
  The fields of \<^verbatim>\<open>MariaDBStore\<close>. The pointer \<^verbatim>\<open>db\<close> is nil when it is \<open>None\<close>. The lock
  \<^verbatim>\<open>mu\<close> has no counterpart: the model is sequential.
\<close>

record MariaDBStore =
  db :: "sql_DB option"
  dbName :: string
  closed :: bool
  connStr :: string
  readOnly :: bool

text \<open>A method call returns, or panics on a nil pointer dereference.\<close>

datatype 'a outcome = Returns 'a | Panics

definition Close :: "MariaDBStore \<Rightarrow> go_error option \<times> MariaDBStore" where
  "Close s =
     (let s1 = s\<lparr>closed := True\<rparr>;
          err =
            (case db s1 of
               None \<Rightarrow> None
             | Some d \<Rightarrow>
                 (case sql_Close d of
                    None \<Rightarrow> None
                  | Some cerr \<Rightarrow>
                      if \<not> errors_Is cerr Canceled then errors_Join None (Some cerr)
                      else None))
      in (err, s1\<lparr>db := None\<rparr>))"

definition Path :: "MariaDBStore \<Rightarrow> string" where
  "Path s = dbName s"

definition IsClosed :: "MariaDBStore \<Rightarrow> bool" where
  "IsClosed s = closed s"

definition UnderlyingDB :: "MariaDBStore \<Rightarrow> sql_DB option" where
  "UnderlyingDB s = db s"

text \<open>\<^verbatim>\<open>s.db.Conn(ctx)\<close> dereferences the pool pointer: on a nil pointer the call panics.\<close>

definition UnderlyingConn :: "MariaDBStore \<Rightarrow> (go_error + nat) outcome" where
  "UnderlyingConn s = (case db s of None \<Rightarrow> Panics | Some d \<Rightarrow> Returns (sql_Conn d))"

text \<open>A store as \<^verbatim>\<open>New\<close> returns it, whose pool fails to close with the error \<open>cerr\<close>.\<close>

definition open_store :: "go_error option \<Rightarrow> MariaDBStore" where
  "open_store cerr =
     \<lparr>db = Some \<lparr>dsn = ''root@tcp(127.0.0.1:3306)/beads?parseTime=true'',
                  close_result = cerr, conn_result = Inr 0\<rparr>,
      dbName = ''beads'', closed = False,
      connStr = ''root@tcp(127.0.0.1:3306)/beads?parseTime=true'', readOnly = False\<rparr>"

section \<open>Opening a store\<close>

record Config =
  Host :: string
  Port :: int
  User :: string
  Password :: string
  Database :: string
  ReadOnly :: bool

definition DefaultPort :: int where
  "DefaultPort = 3306"

text \<open>
  What the package meets outside its own code: the environment variables, the case
  tables of the standard library (\<open>case_table\<close>, the parameter of \<open>ToLower\<close>), the driver
  and the server. \<open>open_error\<close> is the error of \<^verbatim>\<open>sql.Open\<close> for a data source name. The server answers
  a statement (\<open>exec_error\<close>), a counting query (\<open>count_result\<close>, the scanned count or
  an error) and a ping (\<open>ping_error\<close>) in view of the statements it has received so far.
  That list of statements, the trace, is the state the functions below pass along. The
  \<^verbatim>\<open>context.Context\<close> that \<^verbatim>\<open>New\<close> hands on to the driver has no part in the model: a call
  that the context cuts short is a call that the server answers with an error.
\<close>

record server =
  getenv :: "string \<Rightarrow> string"
  case_table :: "nat \<Rightarrow> nat"
  open_error :: "string \<Rightarrow> go_error option"
  exec_error :: "string list \<Rightarrow> string \<Rightarrow> go_error option"
  count_result :: "string list \<Rightarrow> string \<Rightarrow> go_error + int"
  ping_error :: "string list \<Rightarrow> go_error option"
  pool_close_error :: "go_error option"
  pool_conn :: "go_error + nat"

definition sql_Open :: "server \<Rightarrow> string \<Rightarrow> go_error + sql_DB" where
  "sql_Open srv name =
     (case open_error srv name of
        Some err \<Rightarrow> Inl err
      | None \<Rightarrow>
          Inr \<lparr>dsn = name, close_result = pool_close_error srv, conn_result = pool_conn srv\<rparr>)"

definition ExecContext :: "server \<Rightarrow> string list \<Rightarrow> string \<Rightarrow> go_error option \<times> string list" where
  "ExecContext srv trace stmt = (exec_error srv trace stmt, trace @ [stmt])"

definition QueryRow_Scan :: "server \<Rightarrow> string list \<Rightarrow> string \<Rightarrow> (go_error + int) \<times> string list" where
  "QueryRow_Scan srv trace query = (count_result srv trace query, trace @ [query])"

text \<open>The verb \<^verbatim>\<open>%d\<close> of \<^verbatim>\<open>fmt.Sprintf\<close>: an integer in decimal.\<close>

fun digits :: "nat \<Rightarrow> string" where
  "digits n =
     (if n < 10 then [''0123456789'' ! n]
      else digits (n div 10) @ [''0123456789'' ! (n mod 10)])"

declare digits.simps [simp del]

definition Sprintf_d :: "int \<Rightarrow> string" where
  "Sprintf_d i = (if i < 0 then ''-'' @ digits (nat (- i)) else digits (nat i))"

text \<open>
  The verb \<^verbatim>\<open>%q\<close> for a string of printable ASCII with no quote and no backslash, which
  the names of the registered migrations are: the string between double quotes.
\<close>

definition Sprintf_q :: "string \<Rightarrow> string" where
  "Sprintf_q s = [CHR 0x22] @ s @ [CHR 0x22]"

subsection \<open>Schema evolution\<close>

definition truncateForError :: "string \<Rightarrow> string" where
  "truncateForError s = (if length s > 100 then take 100 s @ ''...'' else s)"

text \<open>\<^verbatim>\<open>strings.Split(s, "\n")\<close>.\<close>

fun split_lines :: "string \<Rightarrow> string \<Rightarrow> string list" where
  "split_lines line [] = [line]"
| "split_lines line (c # cs) =
     (if c = CHR 0x0A then line # split_lines [] cs else split_lines (line @ [c]) cs)"

definition isOnlyComments :: "string \<Rightarrow> bool" where
  "isOnlyComments stmt =
     list_all (\<lambda>line. TrimSpace line = [] \<or> prefix ''--'' (TrimSpace line)) (split_lines [] stmt)"

text \<open>
  The texts \<^verbatim>\<open>schema\<close>, \<^verbatim>\<open>defaultConfig\<close>, \<^verbatim>\<open>readyIssuesView\<close> and \<^verbatim>\<open>blockedIssuesView\<close>
  are constants of the package that its file of SQL texts declares; they are parameters
  here.
\<close>

record sql_texts =
  schema :: string
  defaultConfig :: string
  readyIssuesView :: string
  blockedIssuesView :: string

text \<open>The first loop of \<^verbatim>\<open>initSchemaOnDB\<close>, over the statements of the baseline script.\<close>

fun create_schema :: "server \<Rightarrow> string list \<Rightarrow> string list \<Rightarrow> go_error option \<times> string list" where
  "create_schema srv trace [] = (None, trace)"
| "create_schema srv trace (s # rest) =
     (let stmt = TrimSpace s in
      if stmt = [] then create_schema srv trace rest
      else if isOnlyComments stmt then create_schema srv trace rest
      else
        (case ExecContext srv trace stmt of
           (Some err, trace') \<Rightarrow>
             (Some (Errorf_w ''failed to create schema: '' err
                ([CHR 0x0A] @ ''Statement: '' @ truncateForError stmt)), trace')
         | (None, trace') \<Rightarrow> create_schema srv trace' rest))"

text \<open>The second loop, over the statements of the default configuration.\<close>

fun insert_default_config :: "server \<Rightarrow> string list \<Rightarrow> string list \<Rightarrow> go_error option \<times> string list" where
  "insert_default_config srv trace [] = (None, trace)"
| "insert_default_config srv trace (s # rest) =
     (let stmt = TrimSpace s in
      if stmt = [] then insert_default_config srv trace rest
      else if isOnlyComments stmt then insert_default_config srv trace rest
      else
        (case ExecContext srv trace stmt of
           (Some err, trace') \<Rightarrow> (Some (Errorf_w ''failed to insert default config: '' err []), trace')
         | (None, trace') \<Rightarrow> insert_default_config srv trace' rest))"

definition indexMigrations :: "string list" where
  "indexMigrations = [''CREATE INDEX idx_issues_issue_type ON issues(issue_type)'']"

text \<open>The third loop, over \<^verbatim>\<open>indexMigrations\<close>.\<close>

fun apply_index_migrations :: "server \<Rightarrow> string list \<Rightarrow> string list \<Rightarrow> go_error option \<times> string list" where
  "apply_index_migrations srv trace [] = (None, trace)"
| "apply_index_migrations srv trace (migration # rest) =
     (case ExecContext srv trace migration of
        (Some err, trace') \<Rightarrow>
          if \<not> Contains (ToLower (case_table srv) (Error err)) ''duplicate'' \<and>
             \<not> Contains (ToLower (case_table srv) (Error err)) ''already exists''
          then (Some (Errorf_w ''failed to apply index migration: '' err []), trace')
          else apply_index_migrations srv trace' rest
      | (None, trace') \<Rightarrow> apply_index_migrations srv trace' rest)"

subsection \<open>Named migrations\<close>

text \<open>
  The query of the two migrations, a raw string literal that differs in the name of the
  column only.
\<close>

definition column_query :: "string \<Rightarrow> string" where
  "column_query column =
     [CHR 0x0A, CHR 0x09, CHR 0x09] @ ''SELECT COUNT(*) '' @
     [CHR 0x0A, CHR 0x09, CHR 0x09] @ ''FROM information_schema.columns '' @
     [CHR 0x0A, CHR 0x09, CHR 0x09] @ ''WHERE table_schema = DATABASE() '' @
     [CHR 0x0A, CHR 0x09, CHR 0x09] @ ''AND table_name = '' @ [CHR 0x27] @ ''issues'' @ [CHR 0x27] @ '' '' @
     [CHR 0x0A, CHR 0x09, CHR 0x09] @ ''AND column_name = '' @ [CHR 0x27] @ column @ [CHR 0x27] @
     [CHR 0x0A, CHR 0x09]"

definition migrateWispTypeColumn :: "server \<Rightarrow> string list \<Rightarrow> go_error option \<times> string list" where
  "migrateWispTypeColumn srv trace =
     (case QueryRow_Scan srv trace (column_query ''wisp_type'') of
        (Inl err, trace1) \<Rightarrow> (Some (Errorf_w ''checking wisp_type column: '' err []), trace1)
      | (Inr count, trace1) \<Rightarrow>
          if count > 0 then (None, trace1)
          else
            (case ExecContext srv trace1
                (''ALTER TABLE issues ADD COLUMN wisp_type VARCHAR(32) DEFAULT '' @
                 [CHR 0x27, CHR 0x27]) of
               (Some err, trace2) \<Rightarrow>
                 if \<not> Contains (ToLower (case_table srv) (Error err)) ''duplicate column''
                 then (Some (Errorf_w ''adding wisp_type column: '' err []), trace2)
                 else (None, trace2)
             | (None, trace2) \<Rightarrow> (None, trace2)))"

definition migrateSpecIDColumn :: "server \<Rightarrow> string list \<Rightarrow> go_error option \<times> string list" where
  "migrateSpecIDColumn srv trace =
     (case QueryRow_Scan srv trace (column_query ''spec_id'') of
        (Inl err, trace1) \<Rightarrow> (Some (Errorf_w ''checking spec_id column: '' err []), trace1)
      | (Inr count, trace1) \<Rightarrow>
          if count > 0 then (None, trace1)
          else
            (case ExecContext srv trace1 ''ALTER TABLE issues ADD COLUMN spec_id VARCHAR(1024)'' of
               (err, trace2) \<Rightarrow>
                 if err \<noteq> None \<and> \<not> Contains (ToLower (case_table srv) (Error (the err))) ''duplicate column''
                 then (Some (Errorf_w ''adding spec_id column: '' (the err) []), trace2)
                 else
                   (case ExecContext srv trace2 ''CREATE INDEX idx_issues_spec_id ON issues(spec_id)'' of
                      (err, trace3) \<Rightarrow>
                        if err \<noteq> None \<and> \<not> Contains (ToLower (case_table srv) (Error (the err))) ''duplicate'' \<and>
                           \<not> Contains (ToLower (case_table srv) (Error (the err))) ''already exists''
                        then (Some (Errorf_w ''creating spec_id index: '' (the err) []), trace3)
                        else (None, trace3))))"

record Migration =
  Name :: string
  Func :: "server \<Rightarrow> string list \<Rightarrow> go_error option \<times> string list"

definition migrationsList :: "Migration list" where
  "migrationsList =
     [\<lparr>Name = ''wisp_type_column'', Func = migrateWispTypeColumn\<rparr>,
      \<lparr>Name = ''spec_id_column'', Func = migrateSpecIDColumn\<rparr>]"

fun run_migrations :: "server \<Rightarrow> string list \<Rightarrow> Migration list \<Rightarrow> go_error option \<times> string list" where
  "run_migrations srv trace [] = (None, trace)"
| "run_migrations srv trace (m # rest) =
     (case Func m srv trace of
        (Some err, trace') \<Rightarrow>
          (Some (Errorf_w (''mariadb migration '' @ Sprintf_q (Name m) @ '' failed: '') err []), trace')
      | (None, trace') \<Rightarrow> run_migrations srv trace' rest)"

definition RunMigrations :: "server \<Rightarrow> string list \<Rightarrow> go_error option \<times> string list" where
  "RunMigrations srv trace = run_migrations srv trace migrationsList"


text \<open>
  \<^verbatim>\<open>initSchemaOnDB\<close> is a sequence of steps, each of which returns at once when it fails:
  \<open>and_then\<close> runs the rest after a step that returned the nil error, and \<open>wrap\<close> is
  \<^verbatim>\<open>fmt.Errorf(context + "%w", err)\<close> on the error of a step.
\<close>

definition and_then ::
  "go_error option \<times> string list \<Rightarrow> (string list \<Rightarrow> go_error option \<times> string list) \<Rightarrow>
   go_error option \<times> string list" where
  "and_then r rest = (case r of (Some err, trace) \<Rightarrow> (Some err, trace) | (None, trace) \<Rightarrow> rest trace)"

definition wrap :: "string \<Rightarrow> go_error option \<times> string list \<Rightarrow> go_error option \<times> string list" where
  "wrap context r =
     (case r of
        (Some err, trace) \<Rightarrow> (Some (Errorf_w context err []), trace)
      | (None, trace) \<Rightarrow> (None, trace))"

text \<open>The step that removes the foreign key on \<^verbatim>\<open>depends_on_id\<close>.\<close>

definition drop_depends_on_fk :: "server \<Rightarrow> string list \<Rightarrow> go_error option \<times> string list" where
  "drop_depends_on_fk srv trace =
     (case ExecContext srv trace ''ALTER TABLE dependencies DROP FOREIGN KEY fk_dep_depends_on'' of
        (err, trace') \<Rightarrow>
          if err \<noteq> None \<and>
             \<not> Contains (ToLower (case_table srv) (Error (the err))) (''can'' @ [CHR 0x27] @ ''t drop'') \<and>
             \<not> Contains (ToLower (case_table srv) (Error (the err))) (''doesn'' @ [CHR 0x27] @ ''t exist'') \<and>
             \<not> Contains (ToLower (case_table srv) (Error (the err))) ''check that it exists'' \<and>
             \<not> Contains (ToLower (case_table srv) (Error (the err))) ''was not found''
          then (Some (Errorf_w ''failed to drop fk_dep_depends_on: '' (the err) []), trace')
          else (None, trace'))"

definition initSchemaOnDB :: "server \<Rightarrow> sql_texts \<Rightarrow> string list \<Rightarrow> go_error option \<times> string list" where
  "initSchemaOnDB srv texts trace =
     and_then (create_schema srv trace (splitStatements (schema texts))) (\<lambda>t1.
     and_then (insert_default_config srv t1 (splitStatements (defaultConfig texts))) (\<lambda>t2.
     and_then (apply_index_migrations srv t2 indexMigrations) (\<lambda>t3.
     and_then (drop_depends_on_fk srv t3) (\<lambda>t4.
     and_then (wrap ''failed to create ready_issues view: ''
                 (ExecContext srv t4 (readyIssuesView texts))) (\<lambda>t5.
     and_then (wrap ''failed to create blocked_issues view: ''
                 (ExecContext srv t5 (blockedIssuesView texts))) (\<lambda>t6.
     wrap ''failed to run mariadb migrations: '' (RunMigrations srv t6)))))))"

definition initSchema ::
  "server \<Rightarrow> sql_texts \<Rightarrow> string list \<Rightarrow> MariaDBStore \<Rightarrow> go_error option \<times> string list" where
  "initSchema srv texts trace s = initSchemaOnDB srv texts trace"

subsection \<open>\<^verbatim>\<open>openServerConnection\<close> and \<^verbatim>\<open>New\<close>\<close>

definition server_hint :: string where
  "server_hint =
     [CHR 0x0A, CHR 0x0A] @ ''The MariaDB server may not be running. Try:'' @
     [CHR 0x0A] @ ''  sudo systemctl start mariadb    # On systemd systems'' @
     [CHR 0x0A] @ ''  brew services start mariadb     # On macOS with Homebrew''"

text \<open>
  The pools that the function closes on its way out (\<^verbatim>\<open>db\<close> on an error, \<^verbatim>\<open>initDB\<close>
  always) leave no mark in the model: the results of those calls are discarded.
\<close>

definition openServerConnection ::
  "server \<Rightarrow> string list \<Rightarrow> Config \<Rightarrow> (go_error + sql_DB \<times> string) \<times> string list" where
  "openServerConnection srv trace cfg =
     (let connStr =
            (if Password cfg \<noteq> [] then
               User cfg @ '':'' @ Password cfg @ ''@tcp('' @ Host cfg @ '':'' @
               Sprintf_d (Port cfg) @ '')/'' @ Database cfg @ ''?parseTime=true''
             else
               User cfg @ ''@tcp('' @ Host cfg @ '':'' @ Sprintf_d (Port cfg) @ '')/'' @
               Database cfg @ ''?parseTime=true'')
      in
      case sql_Open srv connStr of
        Inl err \<Rightarrow> (Inl (Errorf_w ''failed to open MariaDB server connection: '' err []), trace)
      | Inr pool \<Rightarrow>
          (let initConnStr =
                 (if Password cfg \<noteq> [] then
                    User cfg @ '':'' @ Password cfg @ ''@tcp('' @ Host cfg @ '':'' @
                    Sprintf_d (Port cfg) @ '')/?parseTime=true''
                  else
                    User cfg @ ''@tcp('' @ Host cfg @ '':'' @ Sprintf_d (Port cfg) @
                    '')/?parseTime=true'')
           in
           case sql_Open srv initConnStr of
             Inl err \<Rightarrow> (Inl (Errorf_w ''failed to open init connection: '' err []), trace)
           | Inr initDB \<Rightarrow>
               (case ExecContext srv trace (''CREATE DATABASE IF NOT EXISTS '' @ Database cfg) of
                  (None, trace') \<Rightarrow> (Inr (pool, connStr), trace')
                | (Some err, trace') \<Rightarrow>
                    (let errLower = ToLower (case_table srv) (Error err) in
                     if \<not> Contains errLower ''database exists'' \<and> \<not> Contains errLower ''1007'' then
                       if Contains errLower ''connection refused'' \<or>
                          Contains errLower ''connect: connection refused''
                       then
                         (Inl (Errorf_w
                            (''failed to connect to MariaDB server at '' @ Host cfg @ '':'' @
                             Sprintf_d (Port cfg) @ '': '') err server_hint), trace')
                       else (Inl (Errorf_w ''failed to create database: '' err []), trace')
                     else (Inr (pool, connStr), trace')))))"

text \<open>
  \<^verbatim>\<open>New\<close> starts with five assignments through the pointer \<^verbatim>\<open>cfg\<close>, the defaults:
  \<open>apply_defaults\<close> is the caller's structure after them.
\<close>

definition apply_defaults :: "server \<Rightarrow> Config \<Rightarrow> Config" where
  "apply_defaults srv cfg0 =
     (let cfg1 = (if Database cfg0 = [] then cfg0\<lparr>Database := ''beads''\<rparr> else cfg0);
          cfg2 = (if Host cfg1 = [] then cfg1\<lparr>Host := ''127.0.0.1''\<rparr> else cfg1);
          cfg3 = (if Port cfg2 = 0 then cfg2\<lparr>Port := DefaultPort\<rparr> else cfg2);
          cfg4 = (if User cfg3 = [] then cfg3\<lparr>User := ''root''\<rparr> else cfg3)
      in if Password cfg4 = [] then cfg4\<lparr>Password := getenv srv ''BEADS_MARIADB_PASSWORD''\<rparr>
         else cfg4)"

text \<open>
  The first component of the result of \<open>New\<close> is the caller's structure as the call
  leaves it, the second what the call returns, the third the trace.
\<close>

definition New ::
  "server \<Rightarrow> sql_texts \<Rightarrow> string list \<Rightarrow> Config \<Rightarrow> Config \<times> (go_error + MariaDBStore) \<times> string list" where
  "New srv texts trace cfg0 =
     (let cfg = apply_defaults srv cfg0 in
      case openServerConnection srv trace cfg of
        (Inl err, t1) \<Rightarrow> (cfg, Inl err, t1)
      | (Inr (pool, connStr'), t1) \<Rightarrow>
          (case ping_error srv t1 of
             Some err \<Rightarrow> (cfg, Inl (Errorf_w ''failed to ping MariaDB database: '' err []), t1)
           | None \<Rightarrow>
               (let store = \<lparr>db = Some pool, dbName = Database cfg, closed = False,
                             connStr = connStr', readOnly = ReadOnly cfg\<rparr>
                in
                if \<not> ReadOnly cfg then
                  (case initSchema srv texts t1 store of
                     (Some err, t2) \<Rightarrow> (cfg, Inl (Errorf_w ''failed to initialize schema: '' err []), t2)
                   | (None, t2) \<Rightarrow> (cfg, Inr store, t2))
                else (cfg, Inr store, t1))))"


subsection \<open>Concrete servers, scripts and invocations\<close>

text \<open>
  A sample of the case tables: the two runes outside ASCII that are lowered into ASCII
  (the Kelvin sign U+212A to \<^verbatim>\<open>k\<close>, the dotted capital I U+0130 to \<^verbatim>\<open>i\<close>), every other rune
  left as it is. A server that accepts everything and reports every column as present,
  and servers that differ from it in one answer; a small set of SQL texts; a
  configuration with every field unset; and three invocations of an operation.
\<close>

definition sample_case_table :: "nat \<Rightarrow> nat" where
  "sample_case_table r = (if r = 0x212A then 0x6B else if r = 0x130 then 0x69 else r)"

definition quiet_server :: server where
  "quiet_server =
     \<lparr>getenv = (\<lambda>name. []), case_table = sample_case_table,
      open_error = (\<lambda>name. None), exec_error = (\<lambda>trace stmt. None),
      count_result = (\<lambda>trace query. Inr 1), ping_error = (\<lambda>trace. None),
      pool_close_error = None, pool_conn = Inr 0\<rparr>"

definition unreachable_server :: server where
  "unreachable_server =
     quiet_server
       \<lparr>getenv := (\<lambda>name. if name = ''BEADS_MARIADB_PASSWORD'' then ''secret'' else []),
        exec_error := (\<lambda>trace stmt.
          Some (ErrorString ''dial tcp 127.0.0.1:3306: connect: connection refused''))\<rparr>"



definition small_texts :: sql_texts where
  "small_texts =
     \<lparr>schema = ''CREATE TABLE issues (id INT); -- done'',
      defaultConfig = ''INSERT INTO config VALUES (1)'',
      readyIssuesView = ''CREATE OR REPLACE VIEW ready_issues AS SELECT 1'',
      blockedIssuesView = ''CREATE OR REPLACE VIEW blocked_issues AS SELECT 1''\<rparr>"

definition empty_config :: Config where
  "empty_config = \<lparr>Host = [], Port = 0, User = [], Password = [], Database = [], ReadOnly = False\<rparr>"

definition broken_pipe :: attempt where
  "broken_pipe = \<lparr>op_error = Some (ErrorString ''write: broken pipe''), op_time = 1000000,
                   interval = 500000000\<rparr>"

definition refused :: attempt where
  "refused = \<lparr>op_error = Some (ErrorString ''dial tcp: connection refused''), op_time = 1000000,
               interval = 500000000\<rparr>"

definition succeeds :: attempt where
  "succeeds = \<lparr>op_error = None, op_time = 1000000, interval = 500000000\<rparr>"

section \<open>Properties\<close>

subsection \<open>Error classification\<close>

lemma of_char_less_256: "(of_char c :: nat) < 256"
proof -
  have "(of_char c :: nat) mod 256 < 256" by simp
  then show ?thesis by (simp only: of_char_mod_256)
qed

lemma of_char_char_of_small: "n < 256 \<Longrightarrow> (of_char (char_of (n :: nat)) :: nat) = n"
  by simp

lemma EncodeRune_ascii: "r < 0x80 \<Longrightarrow> EncodeRune r = [char_of r]"
  by (simp add: EncodeRune_def)

lemma EncodeRune_high:
  assumes "0x80 \<le> r"
  shows "EncodeRune r \<noteq> [] \<and> (\<forall>c \<in> set (EncodeRune r). (0x80 :: nat) \<le> of_char c)"
proof -
  have low: "(0x80 :: nat) \<le> of_char (char_of (0x80 + (k :: nat) mod 0x40))" for k
  proof -
    have "0x80 + k mod 0x40 < (256 :: nat)"
      using mod_less_divisor [of "0x40" k] by linarith
    then show ?thesis by (simp add: of_char_char_of_small)
  qed
  have lead: "(0x80 :: nat) \<le> of_char (char_of (b + k))" if "0x80 \<le> b" "b + k < 256" for b k :: nat
    using that by (simp add: of_char_char_of_small)
  consider (two) "r < 0x800" | (bad) "\<not> r < 0x800" "0x10FFFF < r \<or> (0xD800 \<le> r \<and> r \<le> 0xDFFF)"
    | (three) "\<not> r < 0x800" "\<not> (0x10FFFF < r \<or> (0xD800 \<le> r \<and> r \<le> 0xDFFF))" "r < 0x10000"
    | (four) "\<not> r < 0x10000" "r \<le> 0x10FFFF"
    by linarith
  then show ?thesis
  proof cases
    case two
    then have "r div 0x40 < 0x20" by simp
    then have "(0x80 :: nat) \<le> of_char (char_of (0xC0 + r div 0x40))"
      by (intro lead) simp_all
    with two assms low [of r] show ?thesis
      by (simp add: EncodeRune_def)
  next
    case bad
    with assms show ?thesis
      by (simp add: EncodeRune_def)
  next
    case three
    then have "r div 0x1000 < 0x10" by simp
    then have "(0x80 :: nat) \<le> of_char (char_of (0xE0 + r div 0x1000))"
      by (intro lead) simp_all
    with three assms low [of r] low [of "r div 0x40"] show ?thesis
      by (simp add: EncodeRune_def)
  next
    case four
    then have "r div 0x40000 < 0x05" by simp
    then have "(0x80 :: nat) \<le> of_char (char_of (0xF0 + r div 0x40000))"
      by (intro lead) simp_all
    with four assms low [of r] low [of "r div 0x40"] low [of "r div 0x1000"] show ?thesis
      by (simp add: EncodeRune_def)
  qed
qed

lemma atomic_EncodeRune: "atomic (\<lambda>c. EncodeRune (f c))"
  unfolding atomic_def
proof
  fix r
  show "(\<exists>x. EncodeRune (f r) = [x] \<and> of_char x < (0x80 :: nat)) \<or>
      (EncodeRune (f r) \<noteq> [] \<and> (\<forall>c \<in> set (EncodeRune (f r)). (0x80 :: nat) \<le> of_char c))"
  proof (cases "f r < 0x80")
    case True
    then have "EncodeRune (f r) = [char_of (f r)]" "(of_char (char_of (f r)) :: nat) < 0x80"
      by (simp_all add: EncodeRune_ascii)
    then show ?thesis by blast
  next
    case False
    then show ?thesis using EncodeRune_high [of "f r"] by simp
  qed
qed

lemma atomic_prefix:
  assumes "atomic g"
  shows "isASCII p \<Longrightarrow> prefix p (concat (map g rs)) \<Longrightarrow>
    \<exists>a c. rs = a @ c \<and> map g a = map (\<lambda>x. [x]) p"
proof (induction p arbitrary: rs)
  case Nil
  then show ?case by simp
next
  case (Cons x p)
  from Cons.prems(1) have x: "of_char x < (0x80 :: nat)" and p: "isASCII p"
    by (simp_all add: isASCII_def)
  from Cons.prems(2) obtain r rs' where rs: "rs = r # rs'"
    by (cases rs) auto
  from assms consider (one) y where "g r = [y]" "of_char y < (0x80 :: nat)"
    | (many) "g r \<noteq> []" "\<forall>c \<in> set (g r). (0x80 :: nat) \<le> of_char c"
    unfolding atomic_def by blast
  then show ?case
  proof cases
    case one
    with Cons.prems(2) rs have "y = x" "prefix p (concat (map g rs'))"
      by simp_all
    from Cons.IH [OF p this(2)] obtain a c where "rs' = a @ c" "map g a = map (\<lambda>x. [x]) p"
      by blast
    with rs one \<open>y = x\<close> have "rs = (r # a) @ c \<and> map g (r # a) = map (\<lambda>x. [x]) (x # p)"
      by simp
    then show ?thesis by blast
  next
    case many
    then obtain h t where ht: "g r = h # t" by (cases "g r") auto
    with Cons.prems(2) rs have "h = x" by simp
    with many(2) ht x show ?thesis by simp
  qed
qed

lemma atomic_suffix:
  assumes "atomic g"
  shows "suffix t (concat (map g rs)) \<Longrightarrow> t \<noteq> [] \<Longrightarrow> of_char (hd t) < (0x80 :: nat) \<Longrightarrow>
    \<exists>b rs2. rs = b @ rs2 \<and> t = concat (map g rs2)"
proof (induction rs)
  case Nil
  then show ?case by simp
next
  case (Cons r rs)
  from Cons.prems(1) have "suffix t (g r @ concat (map g rs))" by simp
  then have "suffix t (concat (map g rs)) \<or>
      (\<exists>t'. t = t' @ concat (map g rs) \<and> suffix t' (g r))"
    by (simp only: suffix_append)
  then consider (later) "suffix t (concat (map g rs))"
    | (here) t' where "t = t' @ concat (map g rs)" "suffix t' (g r)" "t' \<noteq> []"
  proof (elim disjE exE conjE)
    assume "suffix t (concat (map g rs))"
    then show ?thesis by (rule that(1))
  next
    fix t' assume t': "t = t' @ concat (map g rs)" "suffix t' (g r)"
    show ?thesis
    proof (cases "t' = []")
      case True
      with t'(1) have "suffix t (concat (map g rs))" by simp
      then show ?thesis by (rule that(1))
    next
      case False
      with t' show ?thesis by (rule that(2))
    qed
  qed
  then show ?case
  proof cases
    case later
    from Cons.IH [OF later Cons.prems(2,3)] obtain b rs2 where "rs = b @ rs2" "t = concat (map g rs2)"
      by blast
    then have "r # rs = (r # b) @ rs2 \<and> t = concat (map g rs2)" by simp
    then show ?thesis by blast
  next
    case here
    from here(3) have "hd t = hd t'" using here(1) by simp
    moreover from here(2,3) have "hd t' \<in> set (g r)"
      by (metis hd_in_set set_mono_suffix subsetD)
    ultimately have low: "\<exists>c \<in> set (g r). of_char c < (0x80 :: nat)"
      using Cons.prems(3) by auto
    from assms consider (one) y where "g r = [y]"
      | (many) "\<forall>c \<in> set (g r). (0x80 :: nat) \<le> of_char c"
      unfolding atomic_def by blast
    then show ?thesis
    proof cases
      case one
      with here(2,3) have "t' = g r"
        by (cases t') (auto simp: suffix_Cons)
      with here(1) have "r # rs = [] @ (r # rs) \<and> t = concat (map g (r # rs))" by simp
      then show ?thesis by blast
    next
      case many
      from low obtain c where "c \<in> set (g r)" "of_char c < (0x80 :: nat)"
        by blast
      with many have False
        by (simp add: leD)
      then show ?thesis ..
    qed
  qed
qed

lemma atomic_sublist:
  assumes "atomic g" and "isASCII p" and "p \<noteq> []"
  shows "sublist p (concat (map g rs)) \<longleftrightarrow>
    (\<exists>b a c. rs = b @ a @ c \<and> map g a = map (\<lambda>x. [x]) p)"
proof
  assume "sublist p (concat (map g rs))"
  then obtain t where t: "suffix t (concat (map g rs))" "prefix p t"
    by (auto simp: sublist_altdef')
  with assms(3) have ne: "t \<noteq> []" and "hd t = hd p"
    by (auto simp: prefix_def)
  with assms(2,3) have "of_char (hd t) < (0x80 :: nat)"
    by (cases p) (simp_all add: isASCII_def)
  from atomic_suffix [OF assms(1) t(1) ne this] obtain b rs2 where
    b: "rs = b @ rs2" "t = concat (map g rs2)"
    by blast
  with t(2) atomic_prefix [OF assms(1,2), of rs2] obtain a c where
    "rs2 = a @ c" "map g a = map (\<lambda>x. [x]) p"
    by blast
  with b show "\<exists>b a c. rs = b @ a @ c \<and> map g a = map (\<lambda>x. [x]) p"
    by blast
next
  assume "\<exists>b a c. rs = b @ a @ c \<and> map g a = map (\<lambda>x. [x]) p"
  then obtain b a c where "rs = b @ a @ c" and a: "map g a = map (\<lambda>x. [x]) p"
    by blast
  then have "concat (map g rs) = concat (map g b) @ concat (map g a) @ concat (map g c)"
    by simp
  also have "concat (map g a) = p"
    by (simp only: a) (induction p, simp_all)
  finally show "sublist p (concat (map g rs))"
    by (auto simp: sublist_def)
qed

lemma DecodeRune_ascii: "of_char c < (0x80 :: nat) \<Longrightarrow> DecodeRune (c # cs) = (of_char c, 1)"
  by (simp add: DecodeRune.simps(2) Let_def)

lemma decode_runes_ascii: "isASCII s \<Longrightarrow> decode_runes s = map of_char s"
proof (induction s)
  case Nil
  show ?case by (subst decode_runes.simps) simp
next
  case (Cons c cs)
  then have "of_char c < (0x80 :: nat)" "decode_runes cs = map of_char cs"
    by (simp_all add: isASCII_def)
  then show ?case
    by (subst decode_runes.simps) (simp add: DecodeRune_ascii)
qed

lemma unicode_ToLower_ascii:
  assumes "of_char c < (0x80 :: nat)"
  shows "unicode_ToLower table (of_char c) = of_char (lower_byte c)"
    and "of_char (lower_byte c) < (0x80 :: nat)"
proof -
  have "(of_char (char_of (of_char c + (0x20 :: nat))) :: nat) = of_char c + 0x20"
    if "of_char c \<le> (0x5A :: nat)"
    using that by (simp add: of_char_char_of_small)
  with assms show "unicode_ToLower table (of_char c) = of_char (lower_byte c)"
    and "of_char (lower_byte c) < (0x80 :: nat)"
    by (auto simp: unicode_ToLower_def lower_byte_def)
qed

lemma ToLower_Map: "ToLower table s = strings_Map (unicode_ToLower table) s"
proof (cases "isASCII s")
  case False
  then show ?thesis by (simp add: ToLower_def)
next
  case True
  have "concat (map (\<lambda>c. EncodeRune (unicode_ToLower table c)) (map of_char s)) = map lower_byte s"
    using True
  proof (induction s)
    case Nil
    show ?case by simp
  next
    case (Cons c cs)
    then have c: "of_char c < (0x80 :: nat)" and cs: "isASCII cs"
      by (simp_all add: isASCII_def)
    from unicode_ToLower_ascii [OF c]
    have "EncodeRune (unicode_ToLower table (of_char c)) = [lower_byte c]"
      by (simp add: EncodeRune_ascii)
    with Cons.IH [OF cs] show ?case by simp
  qed
  with True show ?thesis
    by (simp add: ToLower_def strings_Map_def decode_runes_ascii)
qed

lemma EncodeRune_single:
  assumes "of_char x < (0x80 :: nat)"
  shows "EncodeRune n = [x] \<longleftrightarrow> n = of_char x"
proof
  assume e: "EncodeRune n = [x]"
  show "n = of_char x"
  proof (cases "n < 0x80")
    case True
    with e have "char_of n = x" by (simp add: EncodeRune_ascii)
    then have "(of_char (char_of n) :: nat) = of_char x" by simp
    with True show ?thesis by (simp add: of_char_char_of_small)
  next
    case False
    with EncodeRune_high [of n] e have "(0x80 :: nat) \<le> of_char x" by simp
    with assms show ?thesis by simp
  qed
next
  assume "n = of_char x"
  with assms show "EncodeRune n = [x]" by (simp add: EncodeRune_ascii)
qed

lemma map_EncodeRune_ascii:
  "isASCII p \<Longrightarrow> map (\<lambda>c. EncodeRune (f c)) a = map (\<lambda>x. [x]) p \<longleftrightarrow> map f a = map of_char p"
proof (induction a arbitrary: p)
  case Nil
  show ?case by auto
next
  case (Cons r a)
  show ?case
  proof (cases p)
    case Nil
    then show ?thesis by simp
  next
    case (Cons x p')
    with Cons.prems have x: "of_char x < (0x80 :: nat)" and p': "isASCII p'"
      by (simp_all add: isASCII_def)
    from Cons.IH [OF p'] EncodeRune_single [OF x, of "f r"] Cons show ?thesis
      by simp
  qed
qed

lemma Contains_ToLower_runes:
  assumes "isASCII p" and "p \<noteq> []"
  shows "Contains (ToLower table s) p \<longleftrightarrow>
    (\<exists>b a c. decode_runes s = b @ a @ c \<and> map (unicode_ToLower table) a = map of_char p)"
  using atomic_sublist [OF atomic_EncodeRune assms, of "unicode_ToLower table" "decode_runes s"]
  by (simp add: Contains_def ToLower_Map strings_Map_def map_EncodeRune_ascii [OF assms(1)])

lemma phrase_runes:
  assumes "isASCII p" and "map lower_byte p = p"
  shows "map (unicode_ToLower table) (decode_runes p) = map of_char p"
proof -
  have "map (unicode_ToLower table) (map of_char q) = map of_char (map lower_byte q)"
    if "isASCII q" for q
    using that
  proof (induction q)
    case Nil
    show ?case by simp
  next
    case (Cons c cs)
    then have "of_char c < (0x80 :: nat)" "isASCII cs" by (simp_all add: isASCII_def)
    with Cons.IH unicode_ToLower_ascii(1) [of c] show ?case by simp
  qed
  from this [OF assms(1)] have
    "map (unicode_ToLower table) (map of_char p) = map of_char (map lower_byte p)" .
  then show ?thesis
    by (simp only: decode_runes_ascii [OF assms(1)] assms(2))
qed

lemma Contains_ToLower:
  assumes "isASCII p" and "p \<noteq> []" and "map lower_byte p = p"
  shows "Contains (ToLower table s) p = contains_ci table s p"
  by (simp only: Contains_ToLower_runes [OF assms(1,2)] contains_ci_def phrase_runes [OF assms(1,3)])

lemma phrases_lower:
  "isASCII ''driver: bad connection'' \<and> ''driver: bad connection'' \<noteq> [] \<and>
     map lower_byte ''driver: bad connection'' = ''driver: bad connection''"
  "isASCII ''invalid connection'' \<and> ''invalid connection'' \<noteq> [] \<and>
     map lower_byte ''invalid connection'' = ''invalid connection''"
  "isASCII ''broken pipe'' \<and> ''broken pipe'' \<noteq> [] \<and> map lower_byte ''broken pipe'' = ''broken pipe''"
  "isASCII ''connection reset'' \<and> ''connection reset'' \<noteq> [] \<and>
     map lower_byte ''connection reset'' = ''connection reset''"
  by (simp_all add: isASCII_def lower_byte_def)

lemmas Contains_phrases =
  Contains_ToLower [OF phrases_lower(1) [THEN conjunct1]
    phrases_lower(1) [THEN conjunct2, THEN conjunct1]
    phrases_lower(1) [THEN conjunct2, THEN conjunct2]]
  Contains_ToLower [OF phrases_lower(2) [THEN conjunct1]
    phrases_lower(2) [THEN conjunct2, THEN conjunct1]
    phrases_lower(2) [THEN conjunct2, THEN conjunct2]]
  Contains_ToLower [OF phrases_lower(3) [THEN conjunct1]
    phrases_lower(3) [THEN conjunct2, THEN conjunct1]
    phrases_lower(3) [THEN conjunct2, THEN conjunct2]]
  Contains_ToLower [OF phrases_lower(4) [THEN conjunct1]
    phrases_lower(4) [THEN conjunct2, THEN conjunct1]
    phrases_lower(4) [THEN conjunct2, THEN conjunct2]]

text \<open>
  C2, as the code has it. The nil error is not retryable. Any other error, whatever the
  bytes of its message and whatever the case tables, is retryable exactly when its
  message contains, without regard to case, one of "driver: bad connection", "invalid
  connection", "broken pipe", "connection reset": some block of consecutive runes of the
  message, lowered, is the phrase. Every other error is permanent, among them the
  errors whose message only contains "connection refused".
\<close>

theorem isRetryableError_classification:
  "\<not> isRetryableError table None \<and>
   isRetryableError table (Some e) =
     (contains_ci table (Error e) ''driver: bad connection'' \<or>
      contains_ci table (Error e) ''invalid connection'' \<or>
      contains_ci table (Error e) ''broken pipe'' \<or>
      contains_ci table (Error e) ''connection reset'')"
  by (simp add: isRetryableError_def Let_def Contains_phrases)

theorem isRetryableError_classification_witness:
  "isRetryableError sample_case_table
     (Some (ErrorString (''wRite: bro'' @ [CHR 0xE2, CHR 0x84, CHR 0xAA] @ ''en pipe''))) \<and>
   \<not> isRetryableError sample_case_table (Some (ErrorString ''dial tcp: connection refused''))"
proof -
  let ?msg = "''wRite: bro'' @ [CHR 0xE2, CHR 0x84, CHR 0xAA] @ ''en pipe''"
  have runes: "decode_runes (Error (ErrorString ?msg)) =
      decode_runes ''wRite: '' @
      [0x62, 0x72, 0x6F, 0x212A, 0x65, 0x6E, 0x20, 0x70, 0x69, 0x70, 0x65] @ []"
    by code_simp
  have block: "map (unicode_ToLower sample_case_table)
        [0x62, 0x72, 0x6F, 0x212A, 0x65, 0x6E, 0x20, 0x70, 0x69, 0x70, 0x65] =
      map (unicode_ToLower sample_case_table) (decode_runes ''broken pipe'')"
    by code_simp
  from runes block
  have "contains_ci sample_case_table (Error (ErrorString ?msg)) ''broken pipe''"
    unfolding contains_ci_def by blast
  with isRetryableError_classification [of sample_case_table "ErrorString ?msg"]
  have a: "isRetryableError sample_case_table (Some (ErrorString ?msg))"
    by blast
  have b: "\<not> isRetryableError sample_case_table (Some (ErrorString ''dial tcp: connection refused''))"
    by code_simp
  from a b show ?thesis by blast
qed

text \<open>
  C2 as the specification words it fails: the message "bad connection" contains the
  phrase "bad connection", and the code, which looks for "driver: bad connection",
  classifies it as permanent.
\<close>

theorem isRetryableError_bad_connection_counterexample:
  "contains_ci sample_case_table (Error (ErrorString ''bad connection'')) ''bad connection'' \<and>
   \<not> isRetryableError sample_case_table (Some (ErrorString ''bad connection''))"
proof -
  have "contains_ci sample_case_table (Error (ErrorString ''bad connection'')) ''bad connection''"
    unfolding contains_ci_def
    by (rule exI [of _ "[]"], rule exI [of _ "decode_runes ''bad connection''"],
        rule exI [of _ "[]"]) simp
  moreover have "\<not> isRetryableError sample_case_table (Some (ErrorString ''bad connection''))"
    by code_simp
  ultimately show ?thesis by blast
qed

subsection \<open>Closing a store\<close>

lemma errors_Is_refl: "errors_Is e e"
  by (cases e) simp_all

lemma Close_state: "snd (Close s) = s\<lparr>closed := True, db := None\<rparr>"
  by (simp add: Close_def Let_def)

lemma Close_nil_pool: "db s = None \<Longrightarrow> fst (Close s) = None"
  by (simp add: Close_def Let_def)

text \<open>
  C7. For every store, a second call of \<^verbatim>\<open>Close\<close> after a first one returns the nil
  error, whatever the first call returned.
\<close>

theorem Close_twice_no_error: "fst (Close (snd (Close s))) = None"
  by (rule Close_nil_pool) (simp add: Close_state)

theorem Close_twice_no_error_witness:
  "fst (Close (open_store (Some (ErrorString ''boom'')))) = Some (Joined [ErrorString ''boom'']) \<and>
   fst (Close (snd (Close (open_store (Some (ErrorString ''boom'')))))) = None"
  using Close_twice_no_error [of "open_store (Some (ErrorString ''boom''))"]
  by (simp add: Close_def open_store_def sql_Close_def errors_Join_def List.map_filter_def)

text \<open>
  C10. \<^verbatim>\<open>Close\<close> always sets the closed flag and clears the pool reference. When closing
  the pool fails with an error that is \<^verbatim>\<open>context.Canceled\<close> (by \<^verbatim>\<open>errors.Is\<close>), \<^verbatim>\<open>Close\<close>
  returns nil; when it fails with any other error, \<^verbatim>\<open>Close\<close> returns an error that wraps
  it and has its message; and \<^verbatim>\<open>Close\<close> returns no error in any other case.
\<close>

theorem Close_discards_only_Canceled:
  "IsClosed (snd (Close s)) \<and> UnderlyingDB (snd (Close s)) = None \<and>
   (\<forall>d cerr. db s = Some d \<and> sql_Close d = Some cerr \<and> errors_Is cerr Canceled \<longrightarrow>
      fst (Close s) = None) \<and>
   (\<forall>d cerr. db s = Some d \<and> sql_Close d = Some cerr \<and> \<not> errors_Is cerr Canceled \<longrightarrow>
      (\<exists>e. fst (Close s) = Some e \<and> errors_Is e cerr \<and> Error e = Error cerr)) \<and>
   (\<forall>e. fst (Close s) = Some e \<longrightarrow>
      (\<exists>d cerr. db s = Some d \<and> sql_Close d = Some cerr \<and> \<not> errors_Is cerr Canceled))"
  by (auto simp: Close_def Let_def IsClosed_def UnderlyingDB_def errors_Join_def
      List.map_filter_def errors_Is_refl split: option.splits if_splits)

theorem Close_discards_only_Canceled_witness:
  "fst (Close (open_store (Some (Wrapped ''close: context canceled'' Canceled)))) = None \<and>
   IsClosed (snd (Close (open_store (Some (Wrapped ''close: context canceled'' Canceled))))) \<and>
   (\<exists>e. fst (Close (open_store (Some (ErrorString ''broken pipe'')))) = Some e \<and>
      Error e = ''broken pipe'')"
proof -
  let ?c = "Wrapped ''close: context canceled'' Canceled"
  have 1: "db (open_store (Some ?c)) = Some (the (db (open_store (Some ?c)))) \<and>
      sql_Close (the (db (open_store (Some ?c)))) = Some ?c \<and> errors_Is ?c Canceled"
    by (simp add: open_store_def sql_Close_def)
  have 2: "db (open_store (Some (ErrorString ''broken pipe''))) =
        Some (the (db (open_store (Some (ErrorString ''broken pipe''))))) \<and>
      sql_Close (the (db (open_store (Some (ErrorString ''broken pipe''))))) =
        Some (ErrorString ''broken pipe'') \<and>
      \<not> errors_Is (ErrorString ''broken pipe'') Canceled"
    by (simp add: open_store_def sql_Close_def)
  from 1 Close_discards_only_Canceled [of "open_store (Some ?c)"]
  have "fst (Close (open_store (Some ?c))) = None \<and> IsClosed (snd (Close (open_store (Some ?c))))"
    by blast
  moreover from 2 Close_discards_only_Canceled [of "open_store (Some (ErrorString ''broken pipe''))"]
  have "\<exists>e. fst (Close (open_store (Some (ErrorString ''broken pipe'')))) = Some e \<and>
      Error e = ''broken pipe''"
    by (metis Error.simps(3))
  ultimately show ?thesis by blast
qed

text \<open>
  C1, as the code has it. After \<^verbatim>\<open>Close\<close> the store reports that it is closed and holds
  no pool; \<^verbatim>\<open>UnderlyingDB\<close> returns the nil pool, with no error; \<^verbatim>\<open>UnderlyingConn\<close>
  returns neither a connection nor an error; and the pool reference stays nil when the
  store is closed again: nothing reconnects.
\<close>

theorem after_Close_no_pool:
  "IsClosed (snd (Close s)) \<and>
   UnderlyingDB (snd (Close s)) = None \<and>
   (\<forall>r. UnderlyingConn (snd (Close s)) \<noteq> Returns r) \<and>
   UnderlyingDB (snd (Close (snd (Close s)))) = None"
  by (simp add: Close_state IsClosed_def UnderlyingDB_def UnderlyingConn_def)

theorem after_Close_no_pool_witness:
  "UnderlyingDB (open_store None) \<noteq> None \<and>
   UnderlyingConn (open_store None) = Returns (Inr 0) \<and>
   IsClosed (snd (Close (open_store None))) \<and>
   UnderlyingDB (snd (Close (open_store None))) = None"
  using after_Close_no_pool [of "open_store None"]
  by (simp add: open_store_def UnderlyingDB_def UnderlyingConn_def sql_Conn_def)

text \<open>
  C1 as the specification words it fails: on a closed store \<^verbatim>\<open>UnderlyingConn\<close> does not
  return an error of any kind, it panics on the nil pool, and \<^verbatim>\<open>UnderlyingDB\<close> returns
  nil.
\<close>

theorem UnderlyingConn_after_Close_counterexample:
  "UnderlyingConn (snd (Close (open_store None))) = Panics \<and>
   UnderlyingDB (snd (Close (open_store None))) = None"
  by (simp add: Close_state UnderlyingDB_def UnderlyingConn_def)

subsection \<open>The statement splitter\<close>

lemma splitLoop_scan:
  "i \<le> length script \<Longrightarrow>
   splitLoop script i sts cur inS q =
     scan (if i = 0 then None else Some (script ! (i - 1))) (drop i script) sts cur inS q"
proof (induction script i sts cur inS q rule: splitLoop.induct)
  case (1 script i sts cur inS q)
  show ?case
  proof (cases "i < length script")
    case False
    with "1.prems" have "i = length script" by simp
    then show ?thesis
      by (subst splitLoop.simps) simp
  next
    case True
    then have d: "drop i script = script ! i # drop (Suc i) script"
      by (simp add: Cons_nth_drop_Suc)
    from True have le: "Suc i \<le> length script" by simp
    show ?thesis
      using True le "1.IH"
      by (subst splitLoop.simps) (auto simp: d Let_def is_quote_def emit_def)
  qed
qed

lemma splitStatements_scan:
  "splitStatements script =
     (case scan None script [] [] False (CHR 0x00) of (S, C) \<Rightarrow> emit S C)"
  by (simp add: splitStatements_def splitLoop_scan emit_def)

lemma trim_front_suffix: "suffix (trim_front runes s) s"
proof (induction runes s rule: trim_front.induct)
  case (1 runes s)
  show ?case
  proof (cases "find (\<lambda>r. r \<noteq> [] \<and> prefix r s) runes")
    case None
    then show ?thesis by (subst trim_front.simps) simp
  next
    case (Some r)
    with "1.IH" have "suffix (trim_front runes (drop (length r) s)) (drop (length r) s)"
      by simp
    then have "suffix (trim_front runes (drop (length r) s)) s"
      by (rule suffix_order.trans) (rule suffix_drop)
    with Some show ?thesis by (subst trim_front.simps) simp
  qed
qed

lemma trim_front_no_prefix:
  "r \<in> set runes \<Longrightarrow> r \<noteq> [] \<Longrightarrow> \<not> prefix r (trim_front runes s)"
proof (induction runes s rule: trim_front.induct)
  case (1 runes s)
  show ?case
  proof (cases "find (\<lambda>r. r \<noteq> [] \<and> prefix r s) runes")
    case None
    with "1.prems" have "\<not> prefix r s"
      by (auto simp: find_None_iff)
    with None show ?thesis by (subst trim_front.simps) simp
  next
    case (Some r')
    with "1.IH" "1.prems" have "\<not> prefix r (trim_front runes (drop (length r') s))"
      by simp
    with Some show ?thesis by (subst trim_front.simps) simp
  qed
qed

lemma prefix_before_foreign:
  assumes "prefix r (a @ x # t)" and "x \<notin> set r"
  shows "prefix r a"
proof -
  from assms(1) consider "prefix r a" | us where "r = a @ us" "prefix us (x # t)"
    by (auto simp: prefix_append)
  then show ?thesis
  proof cases
    case 1
    then show ?thesis .
  next
    case 2
    with assms(2) have "us = []"
      by (cases us) auto
    with 2 show ?thesis by simp
  qed
qed

lemma trim_front_protect:
  "x \<notin> \<Union> (set ` set runes) \<Longrightarrow> \<exists>a'. trim_front runes (a @ x # t) = a' @ x # t"
proof (induction runes "a @ x # t" arbitrary: a rule: trim_front.induct)
  case (1 runes)
  show ?case
  proof (cases "find (\<lambda>r. r \<noteq> [] \<and> prefix r (a @ x # t)) runes")
    case None
    then have "trim_front runes (a @ x # t) = a @ x # t"
      by (subst trim_front.simps) simp
    then show ?thesis by blast
  next
    case (Some r)
    then have r: "r \<in> set runes" "prefix r (a @ x # t)"
      by (auto simp: find_Some_iff)
    with "1.prems" have "x \<notin> set r" by auto
    with r have "prefix r a" by (rule_tac prefix_before_foreign)
    then obtain a2 where a: "a = r @ a2" by (auto simp: prefix_def)
    then have d: "drop (length r) (a @ x # t) = a2 @ x # t" by simp
    from "1.hyps" [OF Some d] "1.prems" obtain a' where
      "trim_front runes (a2 @ x # t) = a' @ x # t" by blast
    with Some d have "trim_front runes (a @ x # t) = a' @ x # t"
      by (subst trim_front.simps) simp
    then show ?thesis by blast
  qed
qed

lemma space_runes_nonempty: "[] \<notin> set space_runes"
  by (simp add: space_runes_def)

lemma is_quote_not_space: "is_quote c \<Longrightarrow> c \<notin> \<Union> (set ` set space_runes)"
  by (auto simp: is_quote_def space_runes_def)

lemma TrimRight_prefix: "prefix (TrimRight s) s"
  using trim_front_suffix [of "map rev space_runes" "rev s"]
  by (simp add: TrimRight_def suffix_to_prefix)

lemma TrimSpace_no_space_prefix: "\<not> has_space_prefix (TrimSpace s)"
proof
  assume "has_space_prefix (TrimSpace s)"
  then obtain r where r: "r \<in> set space_runes" "prefix r (TrimRight (TrimLeft s))"
    by (auto simp: has_space_prefix_def list_ex_iff TrimSpace_def)
  then have "prefix r (TrimLeft s)"
    using TrimRight_prefix prefix_order.trans by blast
  moreover from r space_runes_nonempty have "r \<noteq> []" by auto
  ultimately show False
    using r(1) trim_front_no_prefix [of r space_runes s] by (simp add: TrimLeft_def)
qed

lemma TrimSpace_no_space_suffix: "\<not> has_space_suffix (TrimSpace s)"
proof
  assume "has_space_suffix (TrimSpace s)"
  then obtain r where r: "r \<in> set space_runes" "suffix r (TrimRight (TrimLeft s))"
    by (auto simp: has_space_suffix_def list_ex_iff TrimSpace_def)
  then have "prefix (rev r) (trim_front (map rev space_runes) (rev (TrimLeft s)))"
    by (simp add: TrimRight_def suffix_to_prefix)
  moreover from r space_runes_nonempty have "rev r \<noteq> []" by auto
  moreover from r have "rev r \<in> set (map rev space_runes)" by simp
  ultimately show False
    using trim_front_no_prefix by blast
qed

lemma TrimSpace_protect:
  assumes "is_quote x" and "is_quote y"
  shows "\<exists>a' b'. TrimSpace (a @ x # m @ y # b) = a' @ x # m @ y # b'"
proof -
  from is_quote_not_space [OF assms(1)] obtain a' where
    l: "TrimLeft (a @ x # m @ y # b) = a' @ x # m @ y # b"
    using trim_front_protect [of x space_runes a "m @ y # b"] by (auto simp: TrimLeft_def)
  from is_quote_not_space [OF assms(2)] have "y \<notin> \<Union> (set ` set (map rev space_runes))"
    by simp
  then obtain c where
    "trim_front (map rev space_runes) (rev b @ y # rev m @ x # rev a') =
       c @ y # rev m @ x # rev a'"
    using trim_front_protect [of y "map rev space_runes" "rev b" "rev m @ x # rev a'"] by blast
  then have "TrimRight (a' @ x # m @ y # b) = a' @ x # m @ y # rev c"
    by (simp add: TrimRight_def)
  with l have "TrimSpace (a @ x # m @ y # b) = a' @ x # m @ y # rev c"
    by (simp add: TrimSpace_def)
  then show ?thesis by blast
qed



lemma semicolon_not_quote [simp]: "\<not> is_quote (CHR 0x3B)"
  by (simp add: is_quote_def)

lemma emit_append: "emit (A @ sts) cur = A @ emit sts cur"
  by (simp add: emit_def Let_def)

lemma prefix_emit: "prefix sts (emit sts cur)"
  by (simp add: emit_def Let_def)

lemma scan_outside_indep:
  "scan p s sts cur False q = scan p' s sts cur False q'"
proof (induction s arbitrary: p p' sts cur q q')
  case Nil
  show ?case by simp
next
  case (Cons c cs)
  show ?case
    using Cons.IH [where p = "Some c" and p' = "Some c" and q = q and q' = q'] by auto
qed

lemma scan_acc:
  "scan p s (A @ sts) cur inS q = (case scan p s sts cur inS q of (S, C) \<Rightarrow> (A @ S, C))"
  by (induction s arbitrary: p sts cur inS q) (simp_all add: emit_append)

lemma scan_prefix: "prefix sts (fst (scan p s sts cur inS q))"
proof (induction s arbitrary: p sts cur inS q)
  case Nil
  show ?case by simp
next
  case (Cons c cs)
  have "prefix sts (fst (scan (Some c) cs (emit sts cur) [] False q))"
    using prefix_emit Cons.IH prefix_order.trans by blast
  with Cons.IH show ?case by auto
qed

lemma scan_in_string:
  "\<forall>(p, c) \<in> set (zip (p0 # body) body). c = q \<longrightarrow> p = CHR 0x5C \<Longrightarrow>
   scan (Some p0) (body @ rest) sts cur True q =
     scan (Some (last (p0 # body))) rest sts (cur @ body) True q"
proof (induction body arbitrary: p0 cur)
  case Nil
  show ?case by simp
next
  case (Cons c cs)
  from Cons.prems have 1: "c = q \<longrightarrow> p0 = CHR 0x5C"
    and 2: "\<forall>(p, d) \<in> set (zip (c # cs) cs). d = q \<longrightarrow> p = CHR 0x5C"
    by auto
  from 1 have "scan (Some p0) ((c # cs) @ rest) sts cur True q =
      scan (Some c) (cs @ rest) sts (cur @ [c]) True q"
    by auto
  also have "\<dots> = scan (Some (last (c # cs))) rest sts ((cur @ [c]) @ cs) True q"
    by (rule Cons.IH [OF 2])
  finally show ?case by simp
qed

lemma scan_literal:
  assumes "literal l"
  shows "\<exists>q. scan p (l @ rest) sts cur False q0 = scan (Some q) rest sts (cur @ l) False q"
proof -
  from assms obtain q body where l: "is_quote q" "l = q # body @ [q]"
    and esc: "\<forall>(p, c) \<in> set (zip (q # body) body). c = q \<longrightarrow> p = CHR 0x5C"
    and cl: "last (q # body) \<noteq> CHR 0x5C"
    by (auto simp: literal_def)
  have "scan p (l @ rest) sts cur False q0 = scan (Some q) (body @ q # rest) sts (cur @ [q]) True q"
    using l by simp
  also have "\<dots> = scan (Some (last (q # body))) (q # rest) sts ((cur @ [q]) @ body) True q"
    by (rule scan_in_string [OF esc])
  also have "\<dots> = scan (Some q) rest sts (cur @ l) False q"
    using cl l by simp
  finally show ?thesis by blast
qed

lemma scan_chunks:
  "chunks P pre \<Longrightarrow>
   scan p (pre @ rest) sts cur False q =
     (case scan p pre sts cur False q of (S, C) \<Rightarrow> scan None rest S C False (CHR 0x00))"
proof (induction pre arbitrary: p sts cur q rule: chunks.induct)
  case chunks_Nil
  show ?case
    using scan_outside_indep [of p rest sts cur q None "CHR 0x00"] by simp
next
  case (chunks_char c s)
  then show ?case by simp
next
  case (chunks_literal l s)
  from scan_literal [OF chunks_literal.hyps(1), of p "s @ rest" sts cur q]
  obtain q1 where 1: "scan p (l @ s @ rest) sts cur False q =
      scan (Some q1) (s @ rest) sts (cur @ l) False q1"
    by blast
  from scan_literal [OF chunks_literal.hyps(1), of p "s @ []" sts cur q]
  obtain q2 where 2: "scan p (l @ s) sts cur False q = scan (Some q2) s sts (cur @ l) False q2"
    by auto
  have 3: "scan (Some q2) s sts (cur @ l) False q2 = scan (Some q1) s sts (cur @ l) False q1"
    by (rule scan_outside_indep)
  show ?case
    using 1 2 3 chunks_literal.IH [of "Some q1" sts "cur @ l" q1] by simp
qed

lemma scan_fragment:
  "fragment s \<Longrightarrow> scan p s sts cur False q = (sts, cur @ s)"
proof (induction s arbitrary: p cur q rule: chunks.induct)
  case chunks_Nil
  show ?case by simp
next
  case (chunks_char c s)
  then show ?case by simp
next
  case (chunks_literal l s)
  from scan_literal [OF chunks_literal.hyps(1), of p s sts cur q]
  obtain q1 where "scan p (l @ s) sts cur False q = scan (Some q1) s sts (cur @ l) False q1"
    by blast
  with chunks_literal.IH show ?case by simp
qed

lemma scan_keeps_current:
  "scan p s sts cur inS q = (S, C) \<Longrightarrow>
   (S = sts \<and> (\<exists>x. C = cur @ x)) \<or> (\<exists>x. prefix (emit sts (cur @ x)) S)"
proof (induction s arbitrary: p sts cur inS q)
  case Nil
  then show ?case by simp
next
  case (Cons c cs)
  show ?case
  proof (cases "\<not> inS \<and> \<not> is_quote c \<and> c = CHR 0x3B")
    case True
    with Cons.prems have "scan (Some c) cs (emit sts cur) [] False q = (S, C)"
      by simp
    then have "prefix (emit sts (cur @ [])) S"
      using scan_prefix [of "emit sts cur" "Some c" cs "[]" False q] by simp
    then show ?thesis by blast
  next
    case False
    then obtain inS' q' where "scan (Some c) cs sts (cur @ [c]) inS' q' = (S, C)"
      using Cons.prems by (auto split: if_splits)
    from Cons.IH [OF this] show ?thesis
      by (metis append.assoc)
  qed
qed

lemma splitStatements_fragment: "fragment s \<Longrightarrow> splitStatements s = emit [] s"
  by (simp add: splitStatements_scan scan_fragment)

lemma splitStatements_semicolon:
  assumes "chunks P pre"
  shows "splitStatements (pre @ CHR 0x3B # rest) = splitStatements pre @ splitStatements rest"
proof -
  obtain S1 C1 where 1: "scan None pre [] [] False (CHR 0x00) = (S1, C1)"
    by (cases "scan None pre [] [] False (CHR 0x00)")
  obtain S2 C2 where 2: "scan None rest [] [] False (CHR 0x00) = (S2, C2)"
    by (cases "scan None rest [] [] False (CHR 0x00)")
  have "scan None (pre @ CHR 0x3B # rest) [] [] False (CHR 0x00) =
      scan None (CHR 0x3B # rest) S1 C1 False (CHR 0x00)"
    using scan_chunks [OF assms, of None "CHR 0x3B # rest" "[]" "[]" "CHR 0x00"] 1 by simp
  also have "\<dots> = scan (Some (CHR 0x3B)) rest (emit S1 C1 @ []) [] False (CHR 0x00)"
    by simp
  also have "\<dots> = scan None rest (emit S1 C1 @ []) [] False (CHR 0x00)"
    by (rule scan_outside_indep)
  also have "\<dots> = (emit S1 C1 @ S2, C2)"
    using 2 by (simp only: scan_acc split: prod.splits) simp
  finally show ?thesis
    using 1 2 by (simp add: splitStatements_scan emit_append)
qed

lemma emit_trimmed: "list_all trimmed sts \<Longrightarrow> list_all trimmed (emit sts cur)"
  by (simp add: emit_def Let_def trimmed_def TrimSpace_no_space_prefix TrimSpace_no_space_suffix)

lemma scan_trimmed:
  "list_all trimmed sts \<Longrightarrow> list_all trimmed (fst (scan p s sts cur inS q))"
  by (induction s arbitrary: p sts cur inS q) (simp_all add: emit_trimmed)

lemma splitStatements_trimmed: "list_all trimmed (splitStatements script)"
proof -
  have "list_all trimmed (fst (scan None script [] [] False (CHR 0x00)))"
    by (rule scan_trimmed) simp
  then show ?thesis
    by (cases "scan None script [] [] False (CHR 0x00)")
      (simp add: splitStatements_scan emit_trimmed)
qed

lemma splitStatements_literal:
  assumes "outside pre" and "literal lit"
  shows "\<exists>stmt \<in> set (splitStatements (pre @ lit @ post)). sublist lit stmt"
proof -
  obtain S1 C1 where 1: "scan None pre [] [] False (CHR 0x00) = (S1, C1)"
    by (cases "scan None pre [] [] False (CHR 0x00)")
  obtain S C where 2: "scan None (pre @ lit @ post) [] [] False (CHR 0x00) = (S, C)"
    by (cases "scan None (pre @ lit @ post) [] [] False (CHR 0x00)")
  from scan_literal [OF assms(2), of None post S1 C1 "CHR 0x00"]
  obtain q where "scan None (lit @ post) S1 C1 False (CHR 0x00) =
      scan (Some q) post S1 (C1 @ lit) False q"
    by blast
  with 1 2 have "scan (Some q) post S1 (C1 @ lit) False q = (S, C)"
    using scan_chunks [OF assms(1), of None "lit @ post" "[]" "[]" "CHR 0x00"] by simp
  from scan_keeps_current [OF this]
  consider x where "S = S1" "C = (C1 @ lit) @ x" | x where "prefix (emit S1 ((C1 @ lit) @ x)) S"
    by blast
  then obtain x where x: "TrimSpace (C1 @ lit @ x) \<noteq> [] \<longrightarrow> TrimSpace (C1 @ lit @ x) \<in> set (emit S C)"
  proof cases
    case 1
    then have "TrimSpace (C1 @ lit @ x) \<noteq> [] \<longrightarrow> TrimSpace (C1 @ lit @ x) \<in> set (emit S C)"
      by (simp add: emit_def Let_def)
    then show ?thesis by (rule that)
  next
    case 2
    then have "set (emit S1 (C1 @ lit @ x)) \<subseteq> set S"
      by (simp add: set_mono_prefix)
    moreover have "set S \<subseteq> set (emit S C)"
      by (simp add: emit_def Let_def subset_insertI)
    ultimately have "TrimSpace (C1 @ lit @ x) \<noteq> [] \<longrightarrow> TrimSpace (C1 @ lit @ x) \<in> set (emit S C)"
      by (auto simp: emit_def Let_def)
    then show ?thesis by (rule that)
  qed
  from assms(2) obtain qq body where l: "is_quote qq" "lit = qq # body @ [qq]"
    by (auto simp: literal_def)
  from TrimSpace_protect [OF l(1) l(1), of C1 body x] l(2)
  obtain a' b' where t: "TrimSpace (C1 @ lit @ x) = a' @ lit @ b'"
    by auto
  with x have "a' @ lit @ b' \<in> set (emit S C)"
    using l(2) by simp
  moreover have "sublist lit (a' @ lit @ b')"
    by (rule sublist_appendI)
  ultimately show ?thesis
    using 2 by (auto simp: splitStatements_scan)
qed

lemma trim_front_id: "find (\<lambda>r. r \<noteq> [] \<and> prefix r s) runes = None \<Longrightarrow> trim_front runes s = s"
  by (subst trim_front.simps) simp


lemma chunks_append: "chunks P a \<Longrightarrow> chunks P b \<Longrightarrow> chunks P (a @ b)"
proof (induction a rule: chunks.induct)
  case chunks_Nil
  then show ?case by simp
next
  case (chunks_char c s)
  then show ?case by (simp add: chunks.chunks_char)
next
  case (chunks_literal l s)
  from chunks_literal.hyps(1) chunks_literal.IH [OF chunks_literal.prems]
  have "chunks P (l @ (s @ b))"
    by (rule chunks.chunks_literal)
  then show ?case by simp
qed

lemma zip_pred_snoc:
  "zip (x # ys @ [c]) (ys @ [c]) = zip (x # ys) ys @ [(last (x # ys), c)]"
  by (induction ys arbitrary: x) auto

lemma script_shape:
  "outside s \<or> (\<exists>pre u. s = pre @ u \<and> outside pre \<and> open_literal u)"
proof (induction s rule: rev_induct)
  case Nil
  show ?case by (simp add: chunks_Nil)
next
  case (snoc c s)
  from snoc.IH consider (out) "outside s"
    | (inside) pre q body where "s = pre @ q # body" "outside pre" "is_quote q"
        "\<forall>(p, d) \<in> set (zip (q # body) body). d = q \<longrightarrow> p = CHR 0x5C"
    by (auto simp: open_literal_def)
  then show ?case
  proof cases
    case out
    show ?thesis
    proof (cases "is_quote c")
      case True
      then have "open_literal [c]"
        by (simp add: open_literal_def)
      with out show ?thesis by blast
    next
      case False
      then have "outside [c]"
        by (simp add: chunks_char chunks_Nil)
      with out have "outside (s @ [c])"
        by (rule chunks_append)
      then show ?thesis by blast
    qed
  next
    case inside
    show ?thesis
    proof (cases "c = q \<and> last (q # body) \<noteq> CHR 0x5C")
      case True
      with inside(3,4) have "literal (q # body @ [q])"
        unfolding literal_def by blast
      then have "outside ((q # body @ [q]) @ [])"
        by (rule chunks_literal) (rule chunks_Nil)
      with inside(2) have "outside (pre @ (q # body @ [q]) @ [])"
        by (rule chunks_append)
      with True inside(1) show ?thesis by simp
    next
      case False
      with inside(4) have
        "\<forall>(p, d) \<in> set (zip (q # body @ [c]) (body @ [c])). d = q \<longrightarrow> p = CHR 0x5C"
        by (auto simp: zip_pred_snoc simp del: last.simps)
      with inside(3) have "open_literal (q # body @ [c])"
        unfolding open_literal_def by blast
      with inside(1,2) have "s @ [c] = pre @ (q # body @ [c]) \<and> outside pre \<and>
          open_literal (q # body @ [c])"
        by simp
      then show ?thesis by blast
    qed
  qed
qed


lemma prefix_foreign_iff:
  "x \<notin> set r \<Longrightarrow> prefix r (a @ x # t) \<longleftrightarrow> prefix r a"
  using prefix_before_foreign [of r a x t] by (auto simp: prefix_def)

lemma trim_front_cut:
  "x \<notin> \<Union> (set ` set runes) \<Longrightarrow>
   trim_front runes (a @ x # t) = trim_front runes (a @ [x]) @ t"
proof (induction runes "a @ x # t" arbitrary: a rule: trim_front.induct)
  case (1 runes)
  have eq: "prefix r (a @ x # t) = prefix r (a @ [x])" if "r \<in> set runes" for r
  proof -
    from that "1.prems" have "x \<notin> set r" by auto
    then have "prefix r (a @ x # t) = prefix r a" "prefix r (a @ [x]) = prefix r a"
      by (rule prefix_foreign_iff)+
    then show ?thesis by (simp only:)
  qed
  have same: "find (\<lambda>r. r \<noteq> [] \<and> prefix r (a @ x # t)) runes =
      find (\<lambda>r. r \<noteq> [] \<and> prefix r (a @ [x])) runes"
    by (rule find_cong [OF refl]) (simp only: eq)
  show ?case
  proof (cases "find (\<lambda>r. r \<noteq> [] \<and> prefix r (a @ x # t)) runes")
    case None
    with same have "trim_front runes (a @ x # t) = a @ x # t" "trim_front runes (a @ [x]) = a @ [x]"
      by (simp_all add: trim_front_id)
    then show ?thesis by simp
  next
    case (Some r)
    then have r: "r \<in> set runes" "prefix r (a @ x # t)"
      by (auto simp: find_Some_iff)
    with "1.prems" have "x \<notin> set r" by auto
    with r have "prefix r a" by (simp add: prefix_foreign_iff)
    then obtain a2 where a: "a = r @ a2" by (auto simp: prefix_def)
    then have d: "drop (length r) (a @ x # t) = a2 @ x # t" "drop (length r) (a @ [x]) = a2 @ [x]"
      by simp_all
    from "1.hyps" [OF Some d(1)] "1.prems"
    have ih: "trim_front runes (a2 @ x # t) = trim_front runes (a2 @ [x]) @ t"
      by blast
    from Some d(1) have "trim_front runes (a @ x # t) = trim_front runes (a2 @ x # t)"
      by (subst trim_front.simps) simp
    moreover from Some same d(2) have "trim_front runes (a @ [x]) = trim_front runes (a2 @ [x])"
      by (subst trim_front.simps) simp
    ultimately show ?thesis using ih by simp
  qed
qed

lemma TrimRight_after_quote:
  assumes "is_quote q"
  shows "TrimRight (a @ q # body) = a @ TrimRight (q # body)"
proof -
  from is_quote_not_space [OF assms] have q: "q \<notin> \<Union> (set ` set (map rev space_runes))"
    by simp
  have "trim_front (map rev space_runes) (rev body @ q # rev a) =
      trim_front (map rev space_runes) (rev body @ [q]) @ rev a"
    by (rule trim_front_cut [OF q])
  then show ?thesis
    by (simp add: TrimRight_def)
qed

lemma splitStatements_open_literal:
  assumes "outside pre" and "open_literal u"
  shows "\<exists>stmt \<in> set (splitStatements (pre @ u)). sublist (TrimRight u) stmt"
proof -
  from assms(2) obtain q body where u: "is_quote q" "u = q # body"
    and esc: "\<forall>(p, c) \<in> set (zip (q # body) body). c = q \<longrightarrow> p = CHR 0x5C"
    by (auto simp: open_literal_def)
  obtain S1 C1 where 1: "scan None pre [] [] False (CHR 0x00) = (S1, C1)"
    by (cases "scan None pre [] [] False (CHR 0x00)")
  have "scan None u S1 C1 False (CHR 0x00) = scan (Some q) (body @ []) S1 (C1 @ [q]) True q"
    using u by simp
  also have "\<dots> = scan (Some (last (q # body))) [] S1 ((C1 @ [q]) @ body) True q"
    by (rule scan_in_string [OF esc])
  finally have "scan None u S1 C1 False (CHR 0x00) = (S1, C1 @ u)"
    using u by simp
  with 1 have 2: "splitStatements (pre @ u) = emit S1 (C1 @ u)"
    using scan_chunks [OF assms(1), of None u "[]" "[]" "CHR 0x00"]
    by (simp add: splitStatements_scan)
  from is_quote_not_space [OF u(1)] obtain a' where
    "TrimLeft (C1 @ q # body) = a' @ q # body"
    using trim_front_protect [of q space_runes C1 body] by (auto simp: TrimLeft_def)
  with u have t: "TrimSpace (C1 @ u) = a' @ TrimRight u"
    by (simp add: TrimSpace_def TrimRight_after_quote)
  from is_quote_not_space [OF u(1)] have "q \<notin> \<Union> (set ` set (map rev space_runes))"
    by simp
  from trim_front_protect [OF this, of "rev body" "[]"] u have "TrimRight u \<noteq> []"
    by (auto simp: TrimRight_def)
  with t have "a' @ TrimRight u \<in> set (emit S1 (C1 @ u))"
    by (simp add: emit_def Let_def)
  moreover have "sublist (TrimRight u) (a' @ TrimRight u)"
    by (rule sublist_append_leftI)
  ultimately show ?thesis
    using 2 by auto
qed

text \<open>
  C3. A semicolon inside a quoted literal never separates statements. Every script is
  a sequence of complete literals and of bytes that are not quotes, followed at most by
  one unterminated literal. A literal \<open>lit\<close> that starts after such a sequence is found
  whole inside one statement of the result, whatever follows it; so is an unterminated
  literal at the end of the script, up to the white space at its end. A script with
  semicolons only inside literals yields its trimmed text as a single statement (or
  nothing when that is empty); and the script \<^verbatim>\<open>SELECT 'a;b'; SELECT 2\<close> yields exactly
  \<^verbatim>\<open>SELECT 'a;b'\<close> and \<^verbatim>\<open>SELECT 2\<close>.
\<close>

theorem splitStatements_keeps_literals:
  "(outside pre \<and> literal lit \<longrightarrow>
      (\<exists>stmt \<in> set (splitStatements (pre @ lit @ post)). sublist lit stmt)) \<and>
   (fragment s \<longrightarrow> splitStatements s = (if TrimSpace s = [] then [] else [TrimSpace s])) \<and>
   splitStatements (''SELECT '' @ [CHR 0x27] @ ''a;b'' @ [CHR 0x27] @ ''; SELECT 2'') =
     [''SELECT '' @ [CHR 0x27] @ ''a;b'' @ [CHR 0x27], ''SELECT 2''] \<and>
   (outside script \<or> (\<exists>pre' u. script = pre' @ u \<and> outside pre' \<and> open_literal u)) \<and>
   (outside pre \<and> open_literal u \<longrightarrow>
      (\<exists>stmt \<in> set (splitStatements (pre @ u)). sublist (TrimRight u) stmt))"
proof (intro conjI impI)
  assume "outside pre \<and> literal lit"
  then show "\<exists>stmt \<in> set (splitStatements (pre @ lit @ post)). sublist lit stmt"
    using splitStatements_literal by blast
next
  assume "fragment s"
  then show "splitStatements s = (if TrimSpace s = [] then [] else [TrimSpace s])"
    by (simp add: splitStatements_fragment emit_def Let_def)
next
  show "splitStatements (''SELECT '' @ [CHR 0x27] @ ''a;b'' @ [CHR 0x27] @ ''; SELECT 2'') =
      [''SELECT '' @ [CHR 0x27] @ ''a;b'' @ [CHR 0x27], ''SELECT 2'']"
    by code_simp
next
  show "outside script \<or> (\<exists>pre' u. script = pre' @ u \<and> outside pre' \<and> open_literal u)"
    by (rule script_shape)
next
  assume "outside pre \<and> open_literal u"
  then show "\<exists>stmt \<in> set (splitStatements (pre @ u)). sublist (TrimRight u) stmt"
    using splitStatements_open_literal by blast
qed

theorem splitStatements_keeps_literals_witness:
  "outside ''SELECT '' \<and> literal ([CHR 0x27] @ ''a;b'' @ [CHR 0x27]) \<and>
   (\<exists>stmt \<in> set (splitStatements (''SELECT '' @ ([CHR 0x27] @ ''a;b'' @ [CHR 0x27]) @ ''; SELECT 2'')).
      sublist ([CHR 0x27] @ ''a;b'' @ [CHR 0x27]) stmt) \<and>
   fragment (([CHR 0x22] @ ''x;y'' @ [CHR 0x22]) @ []) \<and>
   splitStatements (([CHR 0x22] @ ''x;y'' @ [CHR 0x22]) @ []) = [[CHR 0x22] @ ''x;y'' @ [CHR 0x22]]"
proof -
  have o: "outside ''SELECT ''"
    by (intro chunks.intros) (simp_all add: is_quote_def)
  have l: "literal ([CHR 0x27] @ ''a;b'' @ [CHR 0x27])"
    unfolding literal_def
    by (rule exI [of _ "CHR 0x27"], rule exI [of _ "''a;b''"]) (simp add: is_quote_def)
  have l2: "literal ([CHR 0x22] @ ''x;y'' @ [CHR 0x22])"
    unfolding literal_def
    by (rule exI [of _ "CHR 0x22"], rule exI [of _ "''x;y''"]) (simp add: is_quote_def)
  have f: "fragment (([CHR 0x22] @ ''x;y'' @ [CHR 0x22]) @ [])"
    by (rule chunks_literal [OF l2 chunks_Nil])
  have t: "TrimSpace (([CHR 0x22] @ ''x;y'' @ [CHR 0x22]) @ []) = [CHR 0x22] @ ''x;y'' @ [CHR 0x22]"
    by code_simp
  note inst = splitStatements_keeps_literals [of "''SELECT ''" "[CHR 0x27] @ ''a;b'' @ [CHR 0x27]"
      "''; SELECT 2''" "([CHR 0x22] @ ''x;y'' @ [CHR 0x22]) @ []"]
  from inst o l
  have 1: "\<exists>stmt \<in> set (splitStatements (''SELECT '' @ ([CHR 0x27] @ ''a;b'' @ [CHR 0x27]) @ ''; SELECT 2'')).
      sublist ([CHR 0x27] @ ''a;b'' @ [CHR 0x27]) stmt"
    by blast
  from inst f
  have "splitStatements (([CHR 0x22] @ ''x;y'' @ [CHR 0x22]) @ []) =
      (if TrimSpace (([CHR 0x22] @ ''x;y'' @ [CHR 0x22]) @ []) = [] then []
       else [TrimSpace (([CHR 0x22] @ ''x;y'' @ [CHR 0x22]) @ [])])"
    by blast
  then have 2: "splitStatements (([CHR 0x22] @ ''x;y'' @ [CHR 0x22]) @ []) =
      [[CHR 0x22] @ ''x;y'' @ [CHR 0x22]]"
    by (simp only: t) simp
  from o l 1 f 2 show ?thesis by blast
qed

text \<open>
  C4. Every statement of the result is non-empty and has no white space at either end.
  The result keeps the order of the script: the statements of the text before a
  semicolon that lies outside every literal come first, those of the text after it
  follow. A last statement with no semicolon after it is still produced: it is the whole
  result when no semicolon precedes it, and the last element otherwise.
\<close>

theorem splitStatements_trimmed_in_order:
  "(\<forall>stmt \<in> set (splitStatements script). trimmed stmt) \<and>
   (outside pre \<longrightarrow>
      splitStatements (pre @ '';'' @ rest) = splitStatements pre @ splitStatements rest) \<and>
   (fragment tail \<and> TrimSpace tail \<noteq> [] \<longrightarrow>
      splitStatements tail = [TrimSpace tail] \<and>
      (outside pre \<longrightarrow> last (splitStatements (pre @ '';'' @ tail)) = TrimSpace tail))"
proof (intro conjI impI)
  show "\<forall>stmt \<in> set (splitStatements script). trimmed stmt"
    using splitStatements_trimmed [of script] by (simp add: list_all_iff)
next
  assume "outside pre"
  then show "splitStatements (pre @ '';'' @ rest) = splitStatements pre @ splitStatements rest"
    by (simp add: splitStatements_semicolon)
next
  assume "fragment tail \<and> TrimSpace tail \<noteq> []"
  then show "splitStatements tail = [TrimSpace tail]"
    by (simp add: splitStatements_fragment emit_def Let_def)
next
  assume "fragment tail \<and> TrimSpace tail \<noteq> []" and "outside pre"
  then show "last (splitStatements (pre @ '';'' @ tail)) = TrimSpace tail"
    by (simp add: splitStatements_semicolon splitStatements_fragment emit_def Let_def)
qed

theorem splitStatements_trimmed_in_order_witness:
  "outside ''a '' \<and> fragment '' b'' \<and> TrimSpace '' b'' \<noteq> [] \<and>
   splitStatements (''a '' @ '';'' @ '' b'') = [''a'', ''b''] \<and>
   last (splitStatements (''a '' @ '';'' @ '' b'')) = ''b'' \<and>
   list_all trimmed (splitStatements (''a '' @ '';'' @ '' b''))"
proof -
  have o: "outside ''a ''"
    by (intro chunks.intros) (simp_all add: is_quote_def)
  have f: "fragment '' b''"
    by (intro chunks.intros) (simp_all add: is_quote_def)
  have t: "TrimSpace '' b'' = ''b''"
    by code_simp
  have a: "splitStatements ''a '' = [''a'']"
    by code_simp
  from o f t a
    splitStatements_trimmed_in_order [of "''a '' @ '';'' @ '' b''" "''a ''" "'' b''" "'' b''"]
  show ?thesis by (simp add: list_all_iff)
qed

subsection \<open>Retrying\<close>

lemma ctx_Err_mono: "ctx_Err ctx t = None \<Longrightarrow> t' \<le> t \<Longrightarrow> ctx_Err ctx t' = None"
  by (auto simp: ctx_Err_def split: option.splits if_splits)

lemma backoff_Retry_calls: "backoff_Retry table ctx start now as = Some r \<Longrightarrow> 1 \<le> calls r"
  by (cases as) (auto simp: Let_def split: attempt_result.splits if_splits)

lemma backoff_Retry_total:
  "list_ex (\<lambda>a. \<not> isRetryableError table (op_error a)) as \<Longrightarrow>
   backoff_Retry table ctx start now as \<noteq> None"
proof (induction as arbitrary: now)
  case Nil
  then show ?case by simp
next
  case (Cons a rest)
  show ?case
  proof (cases "isRetryableError table (op_error a)")
    case True
    with Cons.prems have "list_ex (\<lambda>a. \<not> isRetryableError table (op_error a)) rest" by simp
    from Cons.IH [OF this] show ?thesis
      by (simp add: Let_def split: attempt_result.splits)
  next
    case False
    then show ?thesis
      by (simp add: Let_def retry_operation_def split: attempt_result.splits)
  qed
qed

lemma backoff_Retry_last_call:
  "backoff_Retry table ctx start now as = Some r \<Longrightarrow> start \<le> now \<Longrightarrow>
   now - start \<le> serverRetryMaxElapsed \<Longrightarrow> last_call r - start \<le> serverRetryMaxElapsed"
proof (induction as arbitrary: now r)
  case Nil
  then show ?case by simp
next
  case (Cons a rest)
  show ?case
  proof (cases "retry_operation table (op_error a)")
    case Succeeded
    with Cons.prems show ?thesis by (auto simp: Let_def)
  next
    case (Permanent err)
    with Cons.prems show ?thesis by (auto simp: Let_def)
  next
    case (Retryable err)
    let ?next = "now + op_time a + interval a"
    show ?thesis
    proof (cases "ctx_Err ctx (now + op_time a) = None \<and>
        \<not> (now + op_time a - start) + interval a > serverRetryMaxElapsed \<and>
        ctx_Err ctx ?next = None")
      case False
      with Retryable Cons.prems show ?thesis
        by (auto simp: Let_def split: if_splits)
    next
      case True
      with Retryable Cons.prems obtain r' where
        r': "backoff_Retry table ctx start ?next rest = Some r'" "r = r'\<lparr>calls := calls r' + 1\<rparr>"
        by (auto simp: Let_def)
      from True Cons.prems(2) have "start \<le> ?next" "?next - start \<le> serverRetryMaxElapsed"
        by simp_all
      from Cons.IH [OF r'(1) this] r'(2) show ?thesis by simp
    qed
  qed
qed

lemma retryable_broken_pipe:
  "isRetryableError table (Some (ErrorString ''write: broken pipe''))"
  by (simp add: isRetryableError_def Let_def Contains_def ToLower_def isASCII_def lower_byte_def
      sublist_code)

lemma permanent_refused:
  "\<not> isRetryableError table (Some (ErrorString ''dial tcp: connection refused''))"
  by (simp add: isRetryableError_def Let_def Contains_def ToLower_def isASCII_def lower_byte_def
      sublist_code)

text \<open>
  C5. An operation whose error is classified permanent is invoked once and its error is
  returned as it is. An operation whose first error is classified retryable is invoked
  again unless the caller's context or the ceiling of 30 seconds ends the retrying first.
  When the context is still alive at the end of the first interval and the interval fits
  under the ceiling, the operation is retried: every outcome counts at least two
  invocations, and there is an outcome as soon as a later invocation returns nil or a
  permanent error. No invocation starts later than the ceiling after the first. In the
  three remaining cases the operation is invoked once: with a context that is done when
  the first invocation returns, the call returns the context's error; when the first
  interval would pass the ceiling, it returns the operation's error; with a context that
  is done during the first interval, it returns the context's error.
\<close>

theorem withRetry_permanent_once_retryable_again:
  "(op_error a = Some e \<and> \<not> isRetryableError table (Some e) \<longrightarrow>
      withRetry table ctx now (a # rest) =
        Some \<lparr>returned = Some e, calls = 1, last_call = now\<rparr>) \<and>
   (op_error a = Some e \<and> isRetryableError table (Some e) \<and>
    ctx_Err ctx (now + op_time a + interval a) = None \<and>
    op_time a + interval a \<le> serverRetryMaxElapsed \<longrightarrow>
      withRetry table ctx now (a # rest) =
        map_option (\<lambda>r. r\<lparr>calls := calls r + 1\<rparr>)
          (backoff_Retry table ctx now (now + op_time a + interval a) rest) \<and>
      (\<forall>r. withRetry table ctx now (a # rest) = Some r \<longrightarrow> 2 \<le> calls r) \<and>
      (list_ex (\<lambda>b. \<not> isRetryableError table (op_error b)) rest \<longrightarrow>
         withRetry table ctx now (a # rest) \<noteq> None)) \<and>
   (\<forall>r. withRetry table ctx now (a # rest) = Some r \<longrightarrow>
      last_call r \<le> now + serverRetryMaxElapsed) \<and>
   (op_error a = Some e \<and> isRetryableError table (Some e) \<and>
    ctx_Err ctx (now + op_time a) \<noteq> None \<longrightarrow>
      withRetry table ctx now (a # rest) =
        Some \<lparr>returned = ctx_Err ctx (now + op_time a), calls = 1, last_call = now\<rparr>) \<and>
   (op_error a = Some e \<and> isRetryableError table (Some e) \<and>
    ctx_Err ctx (now + op_time a) = None \<and>
    serverRetryMaxElapsed < op_time a + interval a \<longrightarrow>
      withRetry table ctx now (a # rest) =
        Some \<lparr>returned = Some e, calls = 1, last_call = now\<rparr>) \<and>
   (op_error a = Some e \<and> isRetryableError table (Some e) \<and>
    ctx_Err ctx (now + op_time a) = None \<and>
    op_time a + interval a \<le> serverRetryMaxElapsed \<and>
    ctx_Err ctx (now + op_time a + interval a) \<noteq> None \<longrightarrow>
      withRetry table ctx now (a # rest) =
        Some \<lparr>returned = ctx_Err ctx (now + op_time a + interval a), calls = 1,
              last_call = now\<rparr>)"
proof (intro conjI impI allI)
  assume "op_error a = Some e \<and> \<not> isRetryableError table (Some e)"
  then show "withRetry table ctx now (a # rest) =
      Some \<lparr>returned = Some e, calls = 1, last_call = now\<rparr>"
    by (simp add: withRetry_def retry_operation_def Let_def)
next
  assume h: "op_error a = Some e \<and> isRetryableError table (Some e) \<and>
    ctx_Err ctx (now + op_time a + interval a) = None \<and>
    op_time a + interval a \<le> serverRetryMaxElapsed"
  then have c: "ctx_Err ctx (now + op_time a) = None"
    using ctx_Err_mono [of ctx "now + op_time a + interval a" "now + op_time a"] by simp
  from h c show eq: "withRetry table ctx now (a # rest) =
        map_option (\<lambda>r. r\<lparr>calls := calls r + 1\<rparr>)
          (backoff_Retry table ctx now (now + op_time a + interval a) rest)"
    by (simp add: withRetry_def retry_operation_def Let_def)
  {
    fix r assume "withRetry table ctx now (a # rest) = Some r"
    with eq have "map_option (\<lambda>r. r\<lparr>calls := calls r + 1\<rparr>)
        (backoff_Retry table ctx now (now + op_time a + interval a) rest) = Some r"
      by simp
    then obtain r' where
      "backoff_Retry table ctx now (now + op_time a + interval a) rest = Some r'"
      "r = r'\<lparr>calls := calls r' + 1\<rparr>"
      by (cases "backoff_Retry table ctx now (now + op_time a + interval a) rest") auto
    with backoff_Retry_calls [of table ctx now "now + op_time a + interval a" rest r']
    show "2 \<le> calls r" by simp
  }
  {
    assume "list_ex (\<lambda>b. \<not> isRetryableError table (op_error b)) rest"
    from backoff_Retry_total [OF this] eq show "withRetry table ctx now (a # rest) \<noteq> None"
      by simp
  }
next
  fix r assume "withRetry table ctx now (a # rest) = Some r"
  then have "last_call r - now \<le> serverRetryMaxElapsed"
    using backoff_Retry_last_call [of table ctx now now "a # rest" r]
    by (simp add: withRetry_def)
  then show "last_call r \<le> now + serverRetryMaxElapsed"
    by simp
next
  assume "op_error a = Some e \<and> isRetryableError table (Some e) \<and>
    ctx_Err ctx (now + op_time a) \<noteq> None"
  then show "withRetry table ctx now (a # rest) =
      Some \<lparr>returned = ctx_Err ctx (now + op_time a), calls = 1, last_call = now\<rparr>"
    by (simp add: withRetry_def retry_operation_def Let_def)
next
  assume "op_error a = Some e \<and> isRetryableError table (Some e) \<and>
    ctx_Err ctx (now + op_time a) = None \<and>
    serverRetryMaxElapsed < op_time a + interval a"
  then show "withRetry table ctx now (a # rest) =
      Some \<lparr>returned = Some e, calls = 1, last_call = now\<rparr>"
    by (simp add: withRetry_def retry_operation_def Let_def)
next
  assume "op_error a = Some e \<and> isRetryableError table (Some e) \<and>
    ctx_Err ctx (now + op_time a) = None \<and>
    op_time a + interval a \<le> serverRetryMaxElapsed \<and>
    ctx_Err ctx (now + op_time a + interval a) \<noteq> None"
  then show "withRetry table ctx now (a # rest) =
      Some \<lparr>returned = ctx_Err ctx (now + op_time a + interval a), calls = 1,
            last_call = now\<rparr>"
    by (simp add: withRetry_def retry_operation_def Let_def)
qed

theorem withRetry_permanent_once_retryable_again_witness:
  "withRetry sample_case_table \<lparr>done_at = None, ctx_error = Canceled\<rparr> 0 [refused, succeeds] =
     Some \<lparr>returned = Some (ErrorString ''dial tcp: connection refused''), calls = 1,
           last_call = 0\<rparr> \<and>
   withRetry sample_case_table \<lparr>done_at = None, ctx_error = Canceled\<rparr> 0
       [broken_pipe, succeeds] =
     Some \<lparr>returned = None, calls = 2, last_call = 501000000\<rparr> \<and>
   withRetry sample_case_table \<lparr>done_at = Some 0, ctx_error = Canceled\<rparr> 0
       [broken_pipe, succeeds] =
     Some \<lparr>returned = Some Canceled, calls = 1, last_call = 0\<rparr> \<and>
   withRetry sample_case_table \<lparr>done_at = Some 2000000, ctx_error = DeadlineExceeded\<rparr> 0
       [broken_pipe, succeeds] =
     Some \<lparr>returned = Some DeadlineExceeded, calls = 1, last_call = 0\<rparr> \<and>
   withRetry sample_case_table \<lparr>done_at = None, ctx_error = Canceled\<rparr> 0
       [broken_pipe\<lparr>interval := 31000000000\<rparr>, succeeds] =
     Some \<lparr>returned = Some (ErrorString ''write: broken pipe''), calls = 1, last_call = 0\<rparr>"
proof -
  let ?T = sample_case_table
  let ?ctx = "\<lparr>done_at = None, ctx_error = Canceled\<rparr>"
  let ?cancelled = "\<lparr>done_at = Some 0, ctx_error = Canceled\<rparr>"
  let ?deadline = "\<lparr>done_at = Some 2000000, ctx_error = DeadlineExceeded\<rparr>"
  let ?slow = "broken_pipe\<lparr>interval := 31000000000\<rparr>"
  have 1: "op_error refused = Some (ErrorString ''dial tcp: connection refused'') \<and>
      \<not> isRetryableError ?T (Some (ErrorString ''dial tcp: connection refused''))"
    using permanent_refused [of ?T] by (simp add: refused_def)
  have 2: "op_error broken_pipe = Some (ErrorString ''write: broken pipe'') \<and>
      isRetryableError ?T (Some (ErrorString ''write: broken pipe'')) \<and>
      ctx_Err ?ctx (0 + op_time broken_pipe + interval broken_pipe) = None \<and>
      op_time broken_pipe + interval broken_pipe \<le> serverRetryMaxElapsed"
    using retryable_broken_pipe [of ?T]
    by (simp add: broken_pipe_def ctx_Err_def serverRetryMaxElapsed_def)
  have 3: "op_error broken_pipe = Some (ErrorString ''write: broken pipe'') \<and>
      isRetryableError ?T (Some (ErrorString ''write: broken pipe'')) \<and>
      ctx_Err ?cancelled (0 + op_time broken_pipe) \<noteq> None"
    using retryable_broken_pipe [of ?T]
    by (simp add: broken_pipe_def ctx_Err_def)
  have 4: "op_error broken_pipe = Some (ErrorString ''write: broken pipe'') \<and>
      isRetryableError ?T (Some (ErrorString ''write: broken pipe'')) \<and>
      ctx_Err ?deadline (0 + op_time broken_pipe) = None \<and>
      op_time broken_pipe + interval broken_pipe \<le> serverRetryMaxElapsed \<and>
      ctx_Err ?deadline (0 + op_time broken_pipe + interval broken_pipe) \<noteq> None"
    using retryable_broken_pipe [of ?T]
    by (simp add: broken_pipe_def ctx_Err_def serverRetryMaxElapsed_def)
  have 5: "op_error ?slow = Some (ErrorString ''write: broken pipe'') \<and>
      isRetryableError ?T (Some (ErrorString ''write: broken pipe'')) \<and>
      ctx_Err ?ctx (0 + op_time ?slow) = None \<and>
      serverRetryMaxElapsed < op_time ?slow + interval ?slow"
    using retryable_broken_pipe [of ?T]
    by (simp add: broken_pipe_def ctx_Err_def serverRetryMaxElapsed_def)
  from 1 withRetry_permanent_once_retryable_again
    [where a = refused and e = "ErrorString ''dial tcp: connection refused''" and table = ?T
       and ctx = ?ctx and now = 0 and rest = "[succeeds]"]
  have a: "withRetry ?T ?ctx 0 [refused, succeeds] =
      Some \<lparr>returned = Some (ErrorString ''dial tcp: connection refused''), calls = 1,
            last_call = 0\<rparr>"
    by blast
  from 2 withRetry_permanent_once_retryable_again
    [where a = broken_pipe and e = "ErrorString ''write: broken pipe''" and table = ?T
       and ctx = ?ctx and now = 0 and rest = "[succeeds]"]
  have "withRetry ?T ?ctx 0 [broken_pipe, succeeds] =
      map_option (\<lambda>r. r\<lparr>calls := calls r + 1\<rparr>)
        (backoff_Retry ?T ?ctx 0 (0 + op_time broken_pipe + interval broken_pipe) [succeeds])"
    by blast
  then have b: "withRetry ?T ?ctx 0 [broken_pipe, succeeds] =
      Some \<lparr>returned = None, calls = 2, last_call = 501000000\<rparr>"
    by (simp add: broken_pipe_def succeeds_def retry_operation_def Let_def)
  from 3 withRetry_permanent_once_retryable_again
    [where a = broken_pipe and e = "ErrorString ''write: broken pipe''" and table = ?T
       and ctx = ?cancelled and now = 0 and rest = "[succeeds]"]
  have "withRetry ?T ?cancelled 0 [broken_pipe, succeeds] =
      Some \<lparr>returned = ctx_Err ?cancelled (0 + op_time broken_pipe), calls = 1, last_call = 0\<rparr>"
    by blast
  then have c: "withRetry ?T ?cancelled 0 [broken_pipe, succeeds] =
      Some \<lparr>returned = Some Canceled, calls = 1, last_call = 0\<rparr>"
    by (simp add: ctx_Err_def)
  from 4 withRetry_permanent_once_retryable_again
    [where a = broken_pipe and e = "ErrorString ''write: broken pipe''" and table = ?T
       and ctx = ?deadline and now = 0 and rest = "[succeeds]"]
  have "withRetry ?T ?deadline 0 [broken_pipe, succeeds] =
      Some \<lparr>returned = ctx_Err ?deadline (0 + op_time broken_pipe + interval broken_pipe),
            calls = 1, last_call = 0\<rparr>"
    by blast
  then have d: "withRetry ?T ?deadline 0 [broken_pipe, succeeds] =
      Some \<lparr>returned = Some DeadlineExceeded, calls = 1, last_call = 0\<rparr>"
    by (simp add: ctx_Err_def broken_pipe_def)
  from 5 withRetry_permanent_once_retryable_again
    [where a = ?slow and e = "ErrorString ''write: broken pipe''" and table = ?T
       and ctx = ?ctx and now = 0 and rest = "[succeeds]"]
  have e: "withRetry ?T ?ctx 0 [?slow, succeeds] =
      Some \<lparr>returned = Some (ErrorString ''write: broken pipe''), calls = 1, last_call = 0\<rparr>"
    by blast
  show ?thesis by (intro conjI a b c d e)
qed

subsection \<open>Schema evolution\<close>

lemma Error_Errorf_w [simp]: "Error (Errorf_w pre err post) = pre @ Error err @ post"
  by (simp add: Errorf_w_def)


lemma QueryRow_Scan_error:
  "QueryRow_Scan srv trace query = (Inl err, trace') \<Longrightarrow>
   trace' \<noteq> [] \<and> last trace' = query \<and> count_result srv (butlast trace') query = Inl err"
  by (auto simp: QueryRow_Scan_def)
















subsection \<open>Opening a store\<close>

lemma New_fst: "fst (New srv texts trace cfg0) = apply_defaults srv cfg0"
  by (simp add: New_def Let_def split: prod.splits sum.splits option.splits)

lemma apply_defaults_fields:
  "apply_defaults srv cfg =
     cfg\<lparr>Database := (if Database cfg = [] then ''beads'' else Database cfg),
         Host := (if Host cfg = [] then ''127.0.0.1'' else Host cfg),
         Port := (if Port cfg = 0 then 3306 else Port cfg),
         User := (if User cfg = [] then ''root'' else User cfg),
         Password := (if Password cfg = [] then getenv srv ''BEADS_MARIADB_PASSWORD''
                      else Password cfg)\<rparr>"
  by (simp add: apply_defaults_def Let_def DefaultPort_def)

lemma apply_defaults_ReadOnly:
  "apply_defaults srv (cfg\<lparr>ReadOnly := b\<rparr>) = (apply_defaults srv cfg)\<lparr>ReadOnly := b\<rparr>"
  by (simp add: apply_defaults_def Let_def)

lemma ReadOnly_apply_defaults: "ReadOnly (apply_defaults srv cfg) = ReadOnly cfg"
  by (simp add: apply_defaults_def Let_def)

lemma openServerConnection_ReadOnly:
  "openServerConnection srv trace (cfg\<lparr>ReadOnly := b\<rparr>) = openServerConnection srv trace cfg"
  by (simp add: openServerConnection_def Let_def
      cong: sum.case_cong prod.case_cong option.case_cong if_cong)

lemma openServerConnection_trace:
  "openServerConnection srv trace cfg = (r, t) \<Longrightarrow>
   t = trace \<or> t = trace @ [''CREATE DATABASE IF NOT EXISTS '' @ Database cfg]"
  by (auto simp: openServerConnection_def Let_def ExecContext_def
      split: sum.splits option.splits if_splits)

text \<open>
  C9. Whatever \<^verbatim>\<open>New\<close> returns, an error as well as a store, it leaves the caller's
  configuration with its empty fields overwritten: \<^verbatim>\<open>Database\<close> by "beads", \<^verbatim>\<open>Host\<close> by
  "127.0.0.1", \<^verbatim>\<open>Port\<close> by 3306, \<^verbatim>\<open>User\<close> by "root" and \<^verbatim>\<open>Password\<close> by the value of
  the environment variable \<^verbatim>\<open>BEADS_MARIADB_PASSWORD\<close>; the other fields keep their values.
\<close>

theorem New_writes_defaults:
  "fst (New srv texts trace cfg) =
     cfg\<lparr>Database := (if Database cfg = [] then ''beads'' else Database cfg),
         Host := (if Host cfg = [] then ''127.0.0.1'' else Host cfg),
         Port := (if Port cfg = 0 then 3306 else Port cfg),
         User := (if User cfg = [] then ''root'' else User cfg),
         Password := (if Password cfg = [] then getenv srv ''BEADS_MARIADB_PASSWORD''
                      else Password cfg)\<rparr>"
  by (simp only: New_fst apply_defaults_fields)

theorem New_writes_defaults_witness:
  "fst (snd (New unreachable_server small_texts [] empty_config)) =
     Inl (Errorf_w ''failed to connect to MariaDB server at 127.0.0.1:3306: ''
            (ErrorString ''dial tcp 127.0.0.1:3306: connect: connection refused'') server_hint) \<and>
   fst (New unreachable_server small_texts [] empty_config) =
     \<lparr>Host = ''127.0.0.1'', Port = 3306, User = ''root'', Password = ''secret'',
      Database = ''beads'', ReadOnly = False\<rparr>"
proof -
  have "fst (snd (New unreachable_server small_texts [] empty_config)) =
     Inl (Errorf_w ''failed to connect to MariaDB server at 127.0.0.1:3306: ''
            (ErrorString ''dial tcp 127.0.0.1:3306: connect: connection refused'') server_hint)"
    by code_simp
  moreover have "fst (New unreachable_server small_texts [] empty_config) =
     \<lparr>Host = ''127.0.0.1'', Port = 3306, User = ''root'', Password = ''secret'',
      Database = ''beads'', ReadOnly = False\<rparr>"
    using New_writes_defaults [of unreachable_server small_texts "[]" empty_config]
    by (simp add: empty_config_def unreachable_server_def quiet_server_def)
  ultimately show ?thesis by blast
qed

text \<open>
  C8. With the read-only flag set, \<^verbatim>\<open>New\<close> sends the server nothing but the statement
  that creates the database, which belongs to the connection step, and returns a store
  marked read-only or the error of the connection or of the ping. The same call without
  the flag fails with the same error at the same point, or goes on from the same trace
  with \<^verbatim>\<open>initSchemaOnDB\<close> and returns the same store, not marked read-only, or the error
  of the schema evolution.
\<close>

theorem New_read_only_skips_schema_evolution:
  assumes "ReadOnly cfg" and "New srv texts trace cfg = (c, r, t)"
  shows
    "(t = trace \<or> t = trace @ [''CREATE DATABASE IF NOT EXISTS '' @ Database c]) \<and>
     (case r of
        Inl err \<Rightarrow> New srv texts trace (cfg\<lparr>ReadOnly := False\<rparr>) = (c\<lparr>ReadOnly := False\<rparr>, Inl err, t)
      | Inr s \<Rightarrow>
          readOnly s \<and>
          New srv texts trace (cfg\<lparr>ReadOnly := False\<rparr>) =
            (case initSchemaOnDB srv texts t of
               (None, t') \<Rightarrow> (c\<lparr>ReadOnly := False\<rparr>, Inr (s\<lparr>readOnly := False\<rparr>), t')
             | (Some err, t') \<Rightarrow>
                 (c\<lparr>ReadOnly := False\<rparr>,
                  Inl (Errorf_w ''failed to initialize schema: '' err []), t')))"
proof -
  let ?d = "apply_defaults srv cfg"
  from assms(1) have ro: "ReadOnly ?d"
    by (simp add: ReadOnly_apply_defaults)
  from assms(2) have c: "c = ?d"
    using New_fst [of srv texts trace cfg] by simp
  obtain oc t1 where oc: "openServerConnection srv trace ?d = (oc, t1)"
    by (cases "openServerConnection srv trace ?d")
  from openServerConnection_trace [OF oc] c
  have t1: "t1 = trace \<or> t1 = trace @ [''CREATE DATABASE IF NOT EXISTS '' @ Database c]"
    by simp
  have rw: "New srv texts trace (cfg\<lparr>ReadOnly := False\<rparr>) =
      (case oc of
         Inl err \<Rightarrow> (?d\<lparr>ReadOnly := False\<rparr>, Inl err, t1)
       | Inr (pool, connStr') \<Rightarrow>
           (case ping_error srv t1 of
              Some err \<Rightarrow> (?d\<lparr>ReadOnly := False\<rparr>,
                 Inl (Errorf_w ''failed to ping MariaDB database: '' err []), t1)
            | None \<Rightarrow>
                (case initSchemaOnDB srv texts t1 of
                   (Some err, t2) \<Rightarrow> (?d\<lparr>ReadOnly := False\<rparr>,
                      Inl (Errorf_w ''failed to initialize schema: '' err []), t2)
                 | (None, t2) \<Rightarrow> (?d\<lparr>ReadOnly := False\<rparr>,
                      Inr \<lparr>db = Some pool, dbName = Database ?d, closed = False,
                           connStr = connStr', readOnly = False\<rparr>, t2))))"
    using oc
    by (simp add: New_def Let_def apply_defaults_ReadOnly openServerConnection_ReadOnly
        initSchema_def split: sum.splits prod.splits option.splits)
  have ro_eq: "New srv texts trace cfg =
      (case oc of
         Inl err \<Rightarrow> (?d, Inl err, t1)
       | Inr (pool, connStr') \<Rightarrow>
           (case ping_error srv t1 of
              Some err \<Rightarrow> (?d, Inl (Errorf_w ''failed to ping MariaDB database: '' err []), t1)
            | None \<Rightarrow>
                (?d, Inr \<lparr>db = Some pool, dbName = Database ?d, closed = False,
                           connStr = connStr', readOnly = True\<rparr>, t1)))"
    using oc ro
    by (simp add: New_def Let_def split: sum.splits prod.splits option.splits)
  show ?thesis
  proof (cases oc)
    case (Inl err)
    with ro_eq rw assms(2) t1 c show ?thesis by simp
  next
    case (Inr pc)
    obtain pool connStr' where pc: "pc = (pool, connStr')" by (cases pc)
    show ?thesis
    proof (cases "ping_error srv t1")
      case (Some err)
      with Inr pc ro_eq rw assms(2) t1 c show ?thesis by simp
    next
      case None
      with Inr pc ro_eq assms(2) have
        r: "r = Inr \<lparr>db = Some pool, dbName = Database ?d, closed = False,
                           connStr = connStr', readOnly = True\<rparr>" and t: "t = t1"
        by simp_all
      from None Inr pc rw have "New srv texts trace (cfg\<lparr>ReadOnly := False\<rparr>) =
          (case initSchemaOnDB srv texts t1 of
                   (Some err, t2) \<Rightarrow> (?d\<lparr>ReadOnly := False\<rparr>,
                      Inl (Errorf_w ''failed to initialize schema: '' err []), t2)
                 | (None, t2) \<Rightarrow> (?d\<lparr>ReadOnly := False\<rparr>,
                      Inr \<lparr>db = Some pool, dbName = Database ?d, closed = False,
                           connStr = connStr', readOnly = False\<rparr>, t2))"
        by simp
      with r t t1 c show ?thesis
        by (simp split: prod.splits option.splits)
    qed
  qed
qed

theorem New_read_only_skips_schema_evolution_witness:
  "New quiet_server small_texts [] (empty_config\<lparr>ReadOnly := True\<rparr>) =
     (\<lparr>Host = ''127.0.0.1'', Port = 3306, User = ''root'', Password = [],
       Database = ''beads'', ReadOnly = True\<rparr>,
      Inr \<lparr>db = Some \<lparr>dsn = ''root@tcp(127.0.0.1:3306)/beads?parseTime=true'',
                        close_result = None, conn_result = Inr 0\<rparr>,
            dbName = ''beads'', closed = False,
            connStr = ''root@tcp(127.0.0.1:3306)/beads?parseTime=true'', readOnly = True\<rparr>,
      [''CREATE DATABASE IF NOT EXISTS beads'']) \<and>
   New quiet_server small_texts [] (empty_config\<lparr>ReadOnly := True, ReadOnly := False\<rparr>) =
     (\<lparr>Host = ''127.0.0.1'', Port = 3306, User = ''root'', Password = [],
       Database = ''beads'', ReadOnly = False\<rparr>,
      Inr \<lparr>db = Some \<lparr>dsn = ''root@tcp(127.0.0.1:3306)/beads?parseTime=true'',
                        close_result = None, conn_result = Inr 0\<rparr>,
            dbName = ''beads'', closed = False,
            connStr = ''root@tcp(127.0.0.1:3306)/beads?parseTime=true'', readOnly = False\<rparr>,
      [''CREATE DATABASE IF NOT EXISTS beads'', ''CREATE TABLE issues (id INT)'',
       ''INSERT INTO config VALUES (1)'',
       ''CREATE INDEX idx_issues_issue_type ON issues(issue_type)'',
       ''ALTER TABLE dependencies DROP FOREIGN KEY fk_dep_depends_on'',
       ''CREATE OR REPLACE VIEW ready_issues AS SELECT 1'',
       ''CREATE OR REPLACE VIEW blocked_issues AS SELECT 1'',
       column_query ''wisp_type'', column_query ''spec_id''])"
proof (rule conjI)
  have ro: "ReadOnly (empty_config\<lparr>ReadOnly := True\<rparr>)"
    by simp
  show run: "New quiet_server small_texts [] (empty_config\<lparr>ReadOnly := True\<rparr>) =
     (\<lparr>Host = ''127.0.0.1'', Port = 3306, User = ''root'', Password = [],
       Database = ''beads'', ReadOnly = True\<rparr>,
      Inr \<lparr>db = Some \<lparr>dsn = ''root@tcp(127.0.0.1:3306)/beads?parseTime=true'',
                        close_result = None, conn_result = Inr 0\<rparr>,
            dbName = ''beads'', closed = False,
            connStr = ''root@tcp(127.0.0.1:3306)/beads?parseTime=true'', readOnly = True\<rparr>,
      [''CREATE DATABASE IF NOT EXISTS beads''])"
    by code_simp
  have init: "initSchemaOnDB quiet_server small_texts [''CREATE DATABASE IF NOT EXISTS beads''] =
      (None,
       [''CREATE DATABASE IF NOT EXISTS beads'', ''CREATE TABLE issues (id INT)'',
        ''INSERT INTO config VALUES (1)'',
        ''CREATE INDEX idx_issues_issue_type ON issues(issue_type)'',
        ''ALTER TABLE dependencies DROP FOREIGN KEY fk_dep_depends_on'',
        ''CREATE OR REPLACE VIEW ready_issues AS SELECT 1'',
        ''CREATE OR REPLACE VIEW blocked_issues AS SELECT 1'',
        column_query ''wisp_type'', column_query ''spec_id''])"
    by code_simp
  note inst = New_read_only_skips_schema_evolution [OF ro run, THEN conjunct2, simplified sum.case,
      THEN conjunct2]
  show "New quiet_server small_texts [] (empty_config\<lparr>ReadOnly := True, ReadOnly := False\<rparr>) =
     (\<lparr>Host = ''127.0.0.1'', Port = 3306, User = ''root'', Password = [],
       Database = ''beads'', ReadOnly = False\<rparr>,
      Inr \<lparr>db = Some \<lparr>dsn = ''root@tcp(127.0.0.1:3306)/beads?parseTime=true'',
                        close_result = None, conn_result = Inr 0\<rparr>,
            dbName = ''beads'', closed = False,
            connStr = ''root@tcp(127.0.0.1:3306)/beads?parseTime=true'', readOnly = False\<rparr>,
      [''CREATE DATABASE IF NOT EXISTS beads'', ''CREATE TABLE issues (id INT)'',
       ''INSERT INTO config VALUES (1)'',
       ''CREATE INDEX idx_issues_issue_type ON issues(issue_type)'',
       ''ALTER TABLE dependencies DROP FOREIGN KEY fk_dep_depends_on'',
       ''CREATE OR REPLACE VIEW ready_issues AS SELECT 1'',
       ''CREATE OR REPLACE VIEW blocked_issues AS SELECT 1'',
       column_query ''wisp_type'', column_query ''spec_id''])"
    by (simp only: inst init prod.case option.case) simp
qed

end
